theory Spec2Isabelle
  imports Main
begin

section \<open>Conway's Game of Life on a torus: the class GameOfLife of game.ts\<close>

text \<open>
  The embedding follows \<^verbatim>\<open>src/game.ts\<close> member by member. JavaScript values that the
  program can hold in a cell or in a counter are numbers, \<^verbatim>\<open>undefined\<close> (a read of a
  missing array element) and \<^verbatim>\<open>NaN\<close> (a number plus \<^verbatim>\<open>undefined\<close>). All numbers of
  the program are small integers, so a number is an \<open>int\<close>. Mouse offsets are whole pixels.
  A thrown exception is the \<open>Inl\<close> branch of the result.
\<close>

subsection \<open>JavaScript values\<close>

datatype val = Num int | Undefined | NaN

datatype error = TypeError | RangeError

text \<open>Truthiness: \<^verbatim>\<open>0\<close>, \<^verbatim>\<open>NaN\<close> and \<^verbatim>\<open>undefined\<close> are falsy.\<close>

fun truthy :: "val \<Rightarrow> bool" where
  "truthy (Num n) = (n \<noteq> 0)"
| "truthy Undefined = False"
| "truthy NaN = False"

text \<open>\<^verbatim>\<open>a + b\<close> on numbers; \<^verbatim>\<open>undefined\<close> converts to \<^verbatim>\<open>NaN\<close>, which absorbs.\<close>

fun js_add :: "val \<Rightarrow> val \<Rightarrow> val" where
  "js_add (Num a) (Num b) = Num (a + b)"
| "js_add _ _ = NaN"

text \<open>\<^verbatim>\<open>v > k\<close> and \<^verbatim>\<open>v < k\<close> against a numeric constant: false unless \<open>v\<close> is a number.\<close>

fun js_gt :: "val \<Rightarrow> int \<Rightarrow> bool" where
  "js_gt (Num a) k = (a > k)"
| "js_gt _ k = False"

fun js_lt :: "val \<Rightarrow> int \<Rightarrow> bool" where
  "js_lt (Num a) k = (a < k)"
| "js_lt _ k = False"

text \<open>Strict equality \<^verbatim>\<open>===\<close>: \<^verbatim>\<open>NaN\<close> equals nothing, not even itself.\<close>

fun strict_eq :: "val \<Rightarrow> val \<Rightarrow> bool" where
  "strict_eq (Num a) (Num b) = (a = b)"
| "strict_eq Undefined Undefined = True"
| "strict_eq _ _ = False"

subsection \<open>Module constants\<close>

definition CELL_STATES :: "string list" where
  "CELL_STATES = [''#fff'', ''#acffaa'']"

definition CELL_SIZE :: int where
  "CELL_SIZE = 15"

definition NEIGHBOURS :: "(int \<times> int) list" where
  "NEIGHBOURS =
    [(-1, -1), (0, -1), (1, -1),
     (-1, 0), (1, 0),
     (-1, 1), (0, 1), (1, 1)]"

definition OVERPOPULATION :: int where
  "OVERPOPULATION = 3"

definition UNDERPOPULATION :: int where
  "UNDERPOPULATION = 2"

definition NEWBORN :: int where
  "NEWBORN = 3"

text \<open>\<^verbatim>\<open>CELL_STATES[v]\<close>: the colour of a state, \<^verbatim>\<open>undefined\<close> (\<open>None\<close>) off the table.\<close>

definition cellColour :: "val \<Rightarrow> string option" where
  "cellColour v =
    (case v of
       Num i \<Rightarrow> (if 0 \<le> i \<and> i < int (length CELL_STATES) then Some (CELL_STATES ! nat i) else None)
     | _ \<Rightarrow> None)"

subsection \<open>The object state and its host\<close>

text \<open>
  A row is a JavaScript array: a property table from index to value, \<^verbatim>\<open>undefined\<close> where
  nothing is stored. An assignment at any index stores there (the array grows, or gets a
  property for a negative index); nothing of the program reads a row's length.
\<close>

type_synonym row = "int \<Rightarrow> val"

text \<open>The calls received by the 2D context, in order.\<close>

datatype canvasOp = DrawCell int int "string option" | DrawGrid | ClearRect

text \<open>
  The fields of the class, then the host's side: the calls made on the canvas, the alerts
  shown, the timeouts and animation frames that are pending, and the next handle the host
  gives out for each. \<open>aborted\<close> is \<^verbatim>\<open>abortController.signal.aborted\<close>: the two mouse
  listeners are attached exactly while it is false.
\<close>

record game =
  cols :: int
  rows :: int
  field :: "row list"
  isSetting :: bool
  timeOut :: "nat option"
  frame :: "nat option"
  isRunning :: bool
  aborted :: bool
  hasSignsOfLife :: bool
  canvasOps :: "canvasOp list"
  alerts :: "string list"
  timers :: "nat list"
  frames :: "nat list"
  nextTimer :: nat
  nextFrame :: nat

record mouseEvent =
  offsetX :: int
  offsetY :: int
  buttons :: nat

text \<open>The constructor sets \<^verbatim>\<open>canvas.width\<close> and \<^verbatim>\<open>canvas.height\<close> once, from the dimensions.\<close>

definition canvas_width :: "game \<Rightarrow> int" where
  "canvas_width s = cols s * CELL_SIZE"

definition canvas_height :: "game \<Rightarrow> int" where
  "canvas_height s = rows s * CELL_SIZE"

subsection \<open>Host functions\<close>

definition alert :: "game \<Rightarrow> string \<Rightarrow> game" where
  "alert s msg = s\<lparr>alerts := alerts s @ [msg]\<rparr>"

definition clearTimeout :: "game \<Rightarrow> nat option \<Rightarrow> game" where
  "clearTimeout s h = (case h of None \<Rightarrow> s | Some i \<Rightarrow> s\<lparr>timers := removeAll i (timers s)\<rparr>)"

definition cancelAnimationFrame :: "game \<Rightarrow> nat option \<Rightarrow> game" where
  "cancelAnimationFrame s h = (case h of None \<Rightarrow> s | Some i \<Rightarrow> s\<lparr>frames := removeAll i (frames s)\<rparr>)"

text \<open>\<^verbatim>\<open>this.timeOut = setTimeout(..., 1000 / FPS)\<close>: a fresh pending handle, stored.\<close>

definition setTimeout :: "game \<Rightarrow> game" where
  "setTimeout s =
     s\<lparr>timeOut := Some (nextTimer s), timers := nextTimer s # timers s,
       nextTimer := Suc (nextTimer s)\<rparr>"

text \<open>\<^verbatim>\<open>this.frame = requestAnimationFrame(this.render)\<close>.\<close>

definition requestAnimationFrame :: "game \<Rightarrow> game" where
  "requestAnimationFrame s =
     s\<lparr>frame := Some (nextFrame s), frames := nextFrame s # frames s,
       nextFrame := Suc (nextFrame s)\<rparr>"

subsection \<open>Reading and writing cells\<close>

text \<open>\<^verbatim>\<open>this.field[y]\<close>: the row, or \<^verbatim>\<open>undefined\<close> (\<open>None\<close>) when there is no such row.\<close>

definition fieldRow :: "game \<Rightarrow> int \<Rightarrow> row option" where
  "fieldRow s y = (if 0 \<le> y \<and> y < int (length (field s)) then Some (field s ! nat y) else None)"

text \<open>\<^verbatim>\<open>this.field[y][x]\<close>: a property read of \<^verbatim>\<open>undefined\<close> throws.\<close>

definition readCell :: "game \<Rightarrow> int \<Rightarrow> int \<Rightarrow> error + val" where
  "readCell s y x = (case fieldRow s y of None \<Rightarrow> Inl TypeError | Some r \<Rightarrow> Inr (r x))"

text \<open>\<^verbatim>\<open>this.field[y]?.[x]\<close>: the guarded read.\<close>

definition readCellOpt :: "game \<Rightarrow> int \<Rightarrow> int \<Rightarrow> val" where
  "readCellOpt s y x = (case fieldRow s y of None \<Rightarrow> Undefined | Some r \<Rightarrow> r x)"

definition drawCell :: "game \<Rightarrow> int \<Rightarrow> int \<Rightarrow> string option \<Rightarrow> game" where
  "drawCell s x y cellState = s\<lparr>canvasOps := canvasOps s @ [DrawCell x y cellState]\<rparr>"

definition drawGrid :: "game \<Rightarrow> game" where
  "drawGrid s = s\<lparr>canvasOps := canvasOps s @ [DrawGrid]\<rparr>"

text \<open>
  The \<^verbatim>\<open>set\<close> trap of the proxy around row \<open>y\<close> (generateField): \<^verbatim>\<open>Reflect.set\<close> stores
  the value and returns true on an array, then the cell is drawn in the colour of the
  value now stored.
\<close>

definition proxySet :: "game \<Rightarrow> int \<Rightarrow> int \<Rightarrow> val \<Rightarrow> game" where
  "proxySet s y x v =
     (let r = (field s ! nat y)(x := v);
          s1 = s\<lparr>field := (field s)[nat y := r]\<rparr>
      in drawCell s1 (x * CELL_SIZE) (y * CELL_SIZE) (cellColour (r x)))"

text \<open>\<^verbatim>\<open>this.field[y][x] = v\<close>.\<close>

definition assignCell :: "game \<Rightarrow> int \<Rightarrow> int \<Rightarrow> val \<Rightarrow> error + game" where
  "assignCell s y x v = (case fieldRow s y of None \<Rightarrow> Inl TypeError | Some r \<Rightarrow> Inr (proxySet s y x v))"

text \<open>
  generateField: \<^verbatim>\<open>new Array(n)\<close> throws a RangeError for a negative length; the row
  callback runs once per row, so the column count is only looked at when there is a row.
  \<open>zeroRow n\<close> is \<^verbatim>\<open>new Array<number>(n).fill(0)\<close>; the proxy is put around it after the
  fill, so the fill draws nothing.
\<close>

definition zeroRow :: "int \<Rightarrow> row" where
  "zeroRow n = (\<lambda>x. if 0 \<le> x \<and> x < n then Num 0 else Undefined)"

definition generateField :: "game \<Rightarrow> error + row list" where
  "generateField s =
     (if rows s < 0 then Inl RangeError
      else if rows s = 0 then Inr []
      else if cols s < 0 then Inl RangeError
      else Inr (replicate (nat (rows s)) (zeroRow (cols s))))"

subsection \<open>Painting the first generation\<close>

definition getCellCoords :: "mouseEvent \<Rightarrow> int \<times> int" where
  "getCellCoords e = (offsetX e div CELL_SIZE, offsetY e div CELL_SIZE)"

definition setFirstGen :: "game \<Rightarrow> mouseEvent \<Rightarrow> error + game" where
  "setFirstGen s e =
     (if buttons e \<noteq> 1 \<or> offsetY e < 0 \<or> offsetY e \<ge> canvas_height s then Inr s
      else
        let (x, y) = getCellCoords e
        in assignCell s y x (Num (if isSetting s then 1 else 0)))"

definition setMode :: "game \<Rightarrow> mouseEvent \<Rightarrow> error + game" where
  "setMode s e =
     (let (x, y) = getCellCoords e
      in setFirstGen (s\<lparr>isSetting := \<not> truthy (readCellOpt s y x)\<rparr>) e)"

subsection \<open>Counting neighbours and the rule\<close>

text \<open>
  The loop of getNeighboursCount over the offsets still to visit, with the running count:
  the \<^verbatim>\<open>break\<close> test comes first in the body.
\<close>

fun countLoop :: "game \<Rightarrow> int \<Rightarrow> int \<Rightarrow> (int \<times> int) list \<Rightarrow> val \<Rightarrow> error + val" where
  "countLoop s Cx Cy [] count = Inr count"
| "countLoop s Cx Cy (neighbour # rest) count =
     (if js_gt count OVERPOPULATION then Inr count
      else
        let Nx = Cx + fst neighbour;
            Ny = Cy + snd neighbour;
            Nx = (if Nx < 0 then cols s - 1 else if Nx \<ge> cols s then 0 else Nx);
            Ny = (if Ny < 0 then rows s - 1 else if Ny \<ge> rows s then 0 else Ny)
        in case readCell s Ny Nx of
             Inl err \<Rightarrow> Inl err
           | Inr v \<Rightarrow> countLoop s Cx Cy rest (js_add count v))"

definition getNeighboursCount :: "game \<Rightarrow> int \<Rightarrow> int \<Rightarrow> error + val" where
  "getNeighboursCount s Cx Cy = countLoop s Cx Cy NEIGHBOURS (Num 0)"

text \<open>The body of getCellState after its two reads.\<close>

definition nextState :: "val \<Rightarrow> val \<Rightarrow> val" where
  "nextState isAlive neighboursCount =
     (if truthy isAlive \<and>
         (js_gt neighboursCount OVERPOPULATION \<or> js_lt neighboursCount UNDERPOPULATION)
      then Num 0
      else if \<not> truthy isAlive \<and> strict_eq neighboursCount (Num NEWBORN) then Num 1
      else isAlive)"

definition getCellState :: "game \<Rightarrow> int \<Rightarrow> int \<Rightarrow> error + val" where
  "getCellState s x y =
     (case getNeighboursCount s x y of
        Inl err \<Rightarrow> Inl err
      | Inr neighboursCount \<Rightarrow>
          (case readCell s y x of
             Inl err \<Rightarrow> Inl err
           | Inr isAlive \<Rightarrow> Inr (nextState isAlive neighboursCount)))"

subsection \<open>One generation\<close>

text \<open>A counted \<^verbatim>\<open>for\<close> loop whose body may throw: the body runs on each index in turn.\<close>

fun forEach :: "('a \<Rightarrow> 'b \<Rightarrow> error + 'a) \<Rightarrow> 'b list \<Rightarrow> 'a \<Rightarrow> error + 'a" where
  "forEach body [] acc = Inr acc"
| "forEach body (i # is) acc =
     (case body acc i of Inl err \<Rightarrow> Inl err | Inr acc' \<Rightarrow> forEach body is acc')"

text \<open>An entry of \<^verbatim>\<open>cellsToChange\<close>: \<open>(x, y, state)\<close>.\<close>

type_synonym change = "int \<times> int \<times> val"

text \<open>
  The body of the scan at cell \<open>(x, y)\<close>. The scan writes \<^verbatim>\<open>cellsToChange\<close> and
  \<^verbatim>\<open>hasSignsOfLife\<close> only, so these two are the loop's state and the object is read.
\<close>

definition scanCell :: "game \<Rightarrow> int \<Rightarrow> change list \<times> bool \<Rightarrow> int \<Rightarrow> error + change list \<times> bool" where
  "scanCell s x acc y =
     (case getCellState s x y of
        Inl err \<Rightarrow> Inl err
      | Inr nextCellState \<Rightarrow>
          (case readCell s y x of
             Inl err \<Rightarrow> Inl err
           | Inr cur \<Rightarrow>
               Inr (if \<not> strict_eq nextCellState cur then fst acc @ [(x, y, nextCellState)] else fst acc,
                    if truthy nextCellState \<and> \<not> snd acc then truthy nextCellState else snd acc)))"

definition scanField :: "game \<Rightarrow> error + change list \<times> bool" where
  "scanField s =
     forEach (\<lambda>acc x. forEach (scanCell s x) [0..rows s - 1] acc) [0..cols s - 1] ([], False)"

definition applyChange :: "game \<Rightarrow> change \<Rightarrow> error + game" where
  "applyChange s c = (case c of (x, y, state) \<Rightarrow> assignCell s y x state)"

definition harmonyMsg :: string where
  "harmonyMsg = ''Our civilization has reached harmony!''"

definition perishedMsg :: string where
  "perishedMsg = ''Our civilization has perished :(''"

definition init :: "game \<Rightarrow> error + game" where
  "init s =
     (let s1 = s\<lparr>isRunning := False, aborted := False\<rparr>
      in case generateField s1 of
           Inl err \<Rightarrow> Inl err
         | Inr f \<Rightarrow> Inr (drawGrid (s1\<lparr>field := f, hasSignsOfLife := True\<rparr>)))"

definition reset :: "game \<Rightarrow> error + game" where
  "reset s =
     (let s1 = clearTimeout s (timeOut s);
          s2 = cancelAnimationFrame s1 (frame s1);
          s3 = s2\<lparr>canvasOps := canvasOps s2 @ [ClearRect]\<rparr>
      in init s3)"

definition updateField :: "game \<Rightarrow> error + game" where
  "updateField s =
     (case scanField s of
        Inl err \<Rightarrow> Inl err
      | Inr (cellsToChange, life) \<Rightarrow>
          (let s1 = s\<lparr>hasSignsOfLife := life\<rparr>;
               stopped =
                 (if cellsToChange = [] then
                    (let s2 = s1\<lparr>isRunning := False\<rparr>;
                         s3 = cancelAnimationFrame s2 (frame s2);
                         s4 = clearTimeout s3 (timeOut s3);
                         s5 = alert s4 (if hasSignsOfLife s4 then harmonyMsg else perishedMsg)
                     in (if \<not> hasSignsOfLife s5 then reset s5 else Inr s5))
                  else Inr s1)
           in (case stopped of
                 Inl err \<Rightarrow> Inl err
               | Inr s6 \<Rightarrow> forEach applyChange cellsToChange s6)))"

subsection \<open>The scheduler and the events of the host\<close>

definition render :: "game \<Rightarrow> error + game" where
  "render s =
     (if \<not> isRunning s then Inr s
      else case updateField s of Inl err \<Rightarrow> Inl err | Inr s1 \<Rightarrow> Inr (setTimeout s1))"

definition start :: "game \<Rightarrow> error + game" where
  "start s = (if isRunning s then Inr s else render (s\<lparr>isRunning := True, aborted := True\<rparr>))"

text \<open>\<^verbatim>\<open>new GameOfLife(canvasId, cols, rows)\<close>: the field initialisers, then init.\<close>

definition GameOfLife :: "int \<Rightarrow> int \<Rightarrow> error + game" where
  "GameOfLife c r =
     init \<lparr>cols = c, rows = r, field = [], isSetting = True, timeOut = None, frame = None,
           isRunning = False, aborted = False, hasSignsOfLife = False,
           canvasOps = [], alerts = [], timers = [], frames = [], nextTimer = 0, nextFrame = 0\<rparr>"

text \<open>
  What the host can deliver: the two mouse events (only while the listeners are attached),
  a click on either button, a pending timeout running out (its callback requests a frame),
  and a pending animation frame (its callback is render).
\<close>

datatype event =
    MouseDown mouseEvent
  | MouseMove mouseEvent
  | ClickStart
  | ClickReset
  | TimerFired nat
  | FrameFired nat

fun step :: "game \<Rightarrow> event \<Rightarrow> error + game" where
  "step s (MouseDown e) = (if aborted s then Inr s else setMode s e)"
| "step s (MouseMove e) = (if aborted s then Inr s else setFirstGen s e)"
| "step s ClickStart = start s"
| "step s ClickReset = reset s"
| "step s (TimerFired h) =
     (if h \<in> set (timers s) then Inr (requestAnimationFrame (s\<lparr>timers := removeAll h (timers s)\<rparr>))
      else Inr s)"
| "step s (FrameFired h) =
     (if h \<in> set (frames s) then render (s\<lparr>frames := removeAll h (frames s)\<rparr>) else Inr s)"

text \<open>A session: the constructor's result, then the events in order.\<close>

fun run :: "error + game \<Rightarrow> event list \<Rightarrow> error + game" where
  "run r [] = r"
| "run (Inl err) (ev # evs) = Inl err"
| "run (Inr s) (ev # evs) = run (step s ev) evs"

subsection \<open>Well-formed states and the specification's counting\<close>

text \<open>
  The states the program is in: the field has one row per grid row, the dimensions are
  those the constructor accepts, and every cell of the grid reads as the number 0 or 1.
\<close>

definition wellFormed :: "game \<Rightarrow> bool" where
  "wellFormed s \<longleftrightarrow>
     int (length (field s)) = rows s \<and> (0 < rows s \<longrightarrow> 0 \<le> cols s) \<and>
     (\<forall>y \<in> set [0..rows s - 1]. \<forall>x \<in> set [0..cols s - 1].
        readCell s y x = Inr (Num 0) \<or> readCell s y x = Inr (Num 1))"

text \<open>
  The wraparound rule in the specification's words: a coordinate below 0 wraps to
  \<open>dimension - 1\<close>, one at or above the dimension wraps to 0.
\<close>

definition wrapAround :: "int \<Rightarrow> int \<Rightarrow> int" where
  "wrapAround dimension c = (if c < 0 then dimension - 1 else if c \<ge> dimension then 0 else c)"

text \<open>The eight relative offsets: every pair over \<open>-1, 0, 1\<close> but the cell itself.\<close>

definition eightOffsets :: "(int \<times> int) list" where
  "eightOffsets = [(dx, dy). dy \<leftarrow> [-1, 0, 1], dx \<leftarrow> [-1, 0, 1], (dx, dy) \<noteq> (0, 0)]"

text \<open>The live state of a cell, as a number.\<close>

definition liveAt :: "game \<Rightarrow> int \<Rightarrow> int \<Rightarrow> int" where
  "liveAt s x y = (if readCell s y x = Inr (Num 1) then 1 else 0)"

text \<open>The full count: the live states of all eight wrapped neighbours, summed with no early exit.\<close>

definition fullCount :: "game \<Rightarrow> int \<Rightarrow> int \<Rightarrow> int" where
  "fullCount s cx cy =
     (\<Sum>(dx, dy) \<leftarrow> eightOffsets. liveAt s (wrapAround (cols s) (cx + dx)) (wrapAround (rows s) (cy + dy)))"

text \<open>The next state of a cell by the rule, from its live state and its full count.\<close>

definition nextCell :: "game \<Rightarrow> int \<Rightarrow> int \<Rightarrow> val" where
  "nextCell s x y = nextState (Num (liveAt s x y)) (Num (fullCount s x y))"

text \<open>
  What the scan of updateField must find on a well-formed state: the cells whose next
  state differs from their state, column by column, and whether any next state is alive.
\<close>

definition changedCells :: "game \<Rightarrow> change list" where
  "changedCells s =
     [(x, y, nextCell s x y). x \<leftarrow> [0..cols s - 1], y \<leftarrow> [0..rows s - 1],
        nextCell s x y \<noteq> Num (liveAt s x y)]"

definition anyLife :: "game \<Rightarrow> bool" where
  "anyLife s \<longleftrightarrow> (\<exists>x \<in> set [0..cols s - 1]. \<exists>y \<in> set [0..rows s - 1]. nextCell s x y = Num 1)"

text \<open>The cell a change entry is for, and the canvas call its write makes.\<close>

definition cellOf :: "change \<Rightarrow> int \<times> int" where
  "cellOf c = (case c of (x, y, v) \<Rightarrow> (x, y))"

definition drawOf :: "change \<Rightarrow> canvasOp" where
  "drawOf c = (case c of (x, y, v) \<Rightarrow> DrawCell (x * CELL_SIZE) (y * CELL_SIZE) (cellColour v))"

subsection \<open>Example states\<close>

text \<open>
  The object right after construction, with a given field: the states the examples below
  start from. \<open>liveRow n xs\<close> is a row of \<open>n\<close> cells whose live cells are those of \<open>xs\<close>.
\<close>

definition gameWith :: "int \<Rightarrow> int \<Rightarrow> row list \<Rightarrow> game" where
  "gameWith c r f =
     \<lparr>cols = c, rows = r, field = f, isSetting = True, timeOut = None, frame = None,
      isRunning = False, aborted = False, hasSignsOfLife = True,
      canvasOps = [DrawGrid], alerts = [], timers = [], frames = [], nextTimer = 0, nextFrame = 0\<rparr>"

definition liveRow :: "int \<Rightarrow> int list \<Rightarrow> row" where
  "liveRow n xs = (\<lambda>x. if 0 \<le> x \<and> x < n then (if x \<in> set xs then Num 1 else Num 0) else Undefined)"

text \<open>A 3 by 3 grid with no live cell, one whose only live cell is (0, 0), and a full one.\<close>

definition emptyGrid3 :: game where
  "emptyGrid3 = gameWith 3 3 [zeroRow 3, zeroRow 3, zeroRow 3]"

definition cornerGrid3 :: game where
  "cornerGrid3 = gameWith 3 3 [liveRow 3 [0], liveRow 3 [], liveRow 3 []]"

definition fullGrid3 :: game where
  "fullGrid3 = gameWith 3 3 [liveRow 3 [0, 1, 2], liveRow 3 [0, 1, 2], liveRow 3 [0, 1, 2]]"

text \<open>A horizontal blinker in the middle row of a 5 by 5 grid, and a 2 by 2 block on a 4 by 4 grid.\<close>

definition blinker5 :: game where
  "blinker5 = gameWith 5 5 [liveRow 5 [], liveRow 5 [], liveRow 5 [1, 2, 3], liveRow 5 [], liveRow 5 []]"

definition block4 :: game where
  "block4 = gameWith 4 4 [liveRow 4 [], liveRow 4 [1, 2], liveRow 4 [1, 2], liveRow 4 []]"

subsection \<open>Notions of the host used by the claims\<close>

text \<open>
  \<^verbatim>\<open>MouseEvent.buttons\<close> is a bit mask; its lowest bit is the primary button, so the
  primary button is held exactly when the mask is odd.
\<close>

definition primaryHeld :: "mouseEvent \<Rightarrow> bool" where
  "primaryHeld e = odd (buttons e)"


text \<open>The events that are callbacks of the host's timers, as opposed to the user's input.\<close>

definition hostCallback :: "event \<Rightarrow> bool" where
  "hostCallback ev = (case ev of TimerFired h \<Rightarrow> True | FrameFired h \<Rightarrow> True | _ \<Rightarrow> False)"

section \<open>Neighbour counting\<close>

lemma eightOffsets_NEIGHBOURS: "eightOffsets = NEIGHBOURS"
  by (simp add: eightOffsets_def NEIGHBOURS_def)

lemma wellFormed_cell:
  "wellFormed s \<Longrightarrow> 0 \<le> y \<Longrightarrow> y < rows s \<Longrightarrow> 0 \<le> x \<Longrightarrow> x < cols s \<Longrightarrow>
   readCell s y x = Inr (Num 0) \<or> readCell s y x = Inr (Num 1)"
  by (simp add: wellFormed_def)

lemma wrapAround_range: "0 \<le> c \<Longrightarrow> c < d \<Longrightarrow> 0 \<le> wrapAround d (c + k) \<and> wrapAround d (c + k) < d"
  by (simp add: wrapAround_def)

lemma liveAt_nonneg: "0 \<le> liveAt s x y"
  by (simp add: liveAt_def)

lemma sum_live_nonneg:
  "0 \<le> (\<Sum>(dx, dy) \<leftarrow> ns. liveAt s (wrapAround (cols s) (Cx + dx)) (wrapAround (rows s) (Cy + dy)))"
  by (induction ns) (auto simp: liveAt_nonneg)

text \<open>
  On a well-formed state the loop never throws, and from a running count \<open>k\<close> it returns
  the full sum capped at \<open>OVERPOPULATION + 1\<close>: each cell adds 0 or 1, so the count is
  exactly that cap when the loop breaks.
\<close>

lemma countLoop_capped:
  assumes wf: "wellFormed s" and x: "0 \<le> Cx" "Cx < cols s" and y: "0 \<le> Cy" "Cy < rows s"
  shows "0 \<le> k \<Longrightarrow> k \<le> OVERPOPULATION + 1 \<Longrightarrow>
     countLoop s Cx Cy ns (Num k) =
       Inr (Num (min (OVERPOPULATION + 1)
         (k + (\<Sum>(dx, dy) \<leftarrow> ns. liveAt s (wrapAround (cols s) (Cx + dx)) (wrapAround (rows s) (Cy + dy))))))"
proof (induction ns arbitrary: k)
  case Nil
  then show ?case by simp
next
  case (Cons n ns)
  obtain dx dy where n: "n = (dx, dy)" by (cases n)
  let ?rest = "\<Sum>(dx, dy) \<leftarrow> ns. liveAt s (wrapAround (cols s) (Cx + dx)) (wrapAround (rows s) (Cy + dy))"
  let ?nx = "wrapAround (cols s) (Cx + dx)" and ?ny = "wrapAround (rows s) (Cy + dy)"
  have rest: "0 \<le> ?rest" by (rule sum_live_nonneg)
  show ?case
  proof (cases "k > OVERPOPULATION")
    case True
    with Cons.prems rest show ?thesis
      by (simp add: n liveAt_def)
  next
    case False
    have rng: "0 \<le> ?nx" "?nx < cols s" "0 \<le> ?ny" "?ny < rows s"
      using wrapAround_range[OF x, of dx] wrapAround_range[OF y, of dy] by simp_all
    from wellFormed_cell[OF wf rng(3,4,1,2)]
    consider (dead) "readCell s ?ny ?nx = Inr (Num 0)" | (live) "readCell s ?ny ?nx = Inr (Num 1)"
      by blast
    then show ?thesis
    proof cases
      case dead
      have "countLoop s Cx Cy (n # ns) (Num k) = countLoop s Cx Cy ns (Num (k + 0))"
        using False dead by (simp add: n wrapAround_def Let_def)
      also have "\<dots> = Inr (Num (min (OVERPOPULATION + 1) (k + 0 + ?rest)))"
        using Cons.prems by (intro Cons.IH) simp_all
      finally show ?thesis using dead by (simp add: n liveAt_def)
    next
      case live
      have "countLoop s Cx Cy (n # ns) (Num k) = countLoop s Cx Cy ns (Num (k + 1))"
        using False live by (simp add: n wrapAround_def Let_def)
      also have "\<dots> = Inr (Num (min (OVERPOPULATION + 1) (k + 1 + ?rest)))"
        using Cons.prems False by (intro Cons.IH) simp_all
      finally show ?thesis using live by (simp add: n liveAt_def add.assoc)
    qed
  qed
qed

lemma getNeighboursCount_capped:
  assumes "wellFormed s" "0 \<le> Cx" "Cx < cols s" "0 \<le> Cy" "Cy < rows s"
  shows "getNeighboursCount s Cx Cy = Inr (Num (min (OVERPOPULATION + 1) (fullCount s Cx Cy)))"
  using countLoop_capped[OF assms, of 0 NEIGHBOURS]
  by (simp add: getNeighboursCount_def fullCount_def eightOffsets_NEIGHBOURS OVERPOPULATION_def)

section \<open>The rule and the scan\<close>


lemma nextState_capped:
  "nextState a (Num (min (OVERPOPULATION + 1) n)) = nextState a (Num n)"
  by (auto simp: nextState_def OVERPOPULATION_def UNDERPOPULATION_def NEWBORN_def min_def)

lemma readCell_liveAt:
  "wellFormed s \<Longrightarrow> 0 \<le> y \<Longrightarrow> y < rows s \<Longrightarrow> 0 \<le> x \<Longrightarrow> x < cols s \<Longrightarrow>
   readCell s y x = Inr (Num (liveAt s x y))"
  using wellFormed_cell[of s y x] by (auto simp: liveAt_def)

lemma getCellState_nextCell:
  assumes "wellFormed s" "0 \<le> x" "x < cols s" "0 \<le> y" "y < rows s"
  shows "getCellState s x y = Inr (nextCell s x y)"
  using getNeighboursCount_capped[OF assms] readCell_liveAt[OF assms(1,4,5,2,3)]
  by (simp add: getCellState_def nextCell_def nextState_capped)

lemma nextCell_binary: "nextCell s x y = Num 0 \<or> nextCell s x y = Num 1"
  by (simp add: nextCell_def nextState_def liveAt_def)

lemma scanCell_eq:
  assumes "wellFormed s" "0 \<le> x" "x < cols s" "0 \<le> y" "y < rows s"
  shows "scanCell s x acc y =
     Inr (fst acc @ (if nextCell s x y \<noteq> Num (liveAt s x y) then [(x, y, nextCell s x y)] else []),
          snd acc \<or> nextCell s x y = Num 1)"
  using getCellState_nextCell[OF assms] readCell_liveAt[OF assms(1,4,5,2,3)] nextCell_binary[of s x y]
  by (auto simp: scanCell_def)

lemma scanColumn_eq:
  assumes "wellFormed s" "0 \<le> x" "x < cols s"
  shows "\<forall>y \<in> set ys. 0 \<le> y \<and> y < rows s \<Longrightarrow>
     forEach (scanCell s x) ys acc =
       Inr (fst acc @ [(x, y, nextCell s x y). y \<leftarrow> ys, nextCell s x y \<noteq> Num (liveAt s x y)],
            snd acc \<or> (\<exists>y \<in> set ys. nextCell s x y = Num 1))"
proof (induction ys arbitrary: acc)
  case Nil
  then show ?case by simp
next
  case (Cons y ys)
  then show ?case
    using scanCell_eq[OF assms, of y acc] by auto
qed

lemma scanColumns_eq:
  assumes "wellFormed s"
  shows "\<forall>x \<in> set xs. 0 \<le> x \<and> x < cols s \<Longrightarrow>
     forEach (\<lambda>acc x. forEach (scanCell s x) [0..rows s - 1] acc) xs acc =
       Inr (fst acc @ [(x, y, nextCell s x y). x \<leftarrow> xs, y \<leftarrow> [0..rows s - 1],
                         nextCell s x y \<noteq> Num (liveAt s x y)],
            snd acc \<or> (\<exists>x \<in> set xs. \<exists>y \<in> set [0..rows s - 1]. nextCell s x y = Num 1))"
proof (induction xs arbitrary: acc)
  case Nil
  then show ?case by simp
next
  case (Cons x xs)
  have col: "forEach (scanCell s x) [0..rows s - 1] acc =
       Inr (fst acc @ [(x, y, nextCell s x y). y \<leftarrow> [0..rows s - 1], nextCell s x y \<noteq> Num (liveAt s x y)],
            snd acc \<or> (\<exists>y \<in> set [0..rows s - 1]. nextCell s x y = Num 1))"
    using Cons.prems by (intro scanColumn_eq[OF assms]) auto
  show ?case
    using Cons.prems by (simp add: col Cons.IH disj_assoc)
qed

lemma scanField_eq: "wellFormed s \<Longrightarrow> scanField s = Inr (changedCells s, anyLife s)"
  using scanColumns_eq[of s "[0..cols s - 1]" "([], False)"]
  by (simp add: scanField_def changedCells_def anyLife_def)

lemma changedCells_mem:
  "(x, y, v) \<in> set (changedCells s) \<longleftrightarrow>
     0 \<le> x \<and> x < cols s \<and> 0 \<le> y \<and> y < rows s \<and> v = nextCell s x y \<and> v \<noteq> Num (liveAt s x y)"
  by (auto simp: changedCells_def)

section \<open>The apply phase\<close>

lemma fieldRow_Some: "0 \<le> y \<Longrightarrow> y < int (length (field s)) \<Longrightarrow> fieldRow s y = Some (field s ! nat y)"
  by (simp add: fieldRow_def)

lemma readCell_proxySet:
  "0 \<le> y \<Longrightarrow> y < int (length (field s)) \<Longrightarrow>
   readCell (proxySet s y x v) y' x' = (if y' = y \<and> x' = x then Inr v else readCell s y' x')"
  by (auto simp: readCell_def fieldRow_def proxySet_def drawCell_def Let_def nth_list_update nat_eq_iff)

lemma readCell_field_only: "field s = field s' \<Longrightarrow> readCell s y x = readCell s' y x"
  by (simp add: readCell_def fieldRow_def)

lemma applyChange_eq:
  "0 \<le> y \<Longrightarrow> y < int (length (field s)) \<Longrightarrow>
   applyChange s (x, y, v) =
     Inr (s\<lparr>field := (field s)[nat y := (field s ! nat y)(x := v)],
            canvasOps := canvasOps s @ [drawOf (x, y, v)]\<rparr>)"
  by (simp add: applyChange_def assignCell_def fieldRow_def proxySet_def drawCell_def drawOf_def Let_def)

lemma applyChanges_eq:
  "\<forall>c \<in> set cs. 0 \<le> fst (snd c) \<and> fst (snd c) < int (length (field s)) \<and> snd (snd c) = g (cellOf c) \<Longrightarrow>
   \<exists>f. forEach applyChange cs s = Inr (s\<lparr>field := f, canvasOps := canvasOps s @ map drawOf cs\<rparr>) \<and>
       length f = length (field s) \<and>
       (\<forall>x y. readCell (s\<lparr>field := f\<rparr>) y x =
          (if (x, y) \<in> cellOf ` set cs then Inr (g (x, y)) else readCell s y x))"
proof (induction cs arbitrary: s)
  case Nil
  show ?case by (rule exI[of _ "field s"]) simp
next
  case (Cons c cs)
  obtain x y v where c: "c = (x, y, v)" by (cases c)
  from Cons.prems have y: "0 \<le> y" "y < int (length (field s))" and v: "v = g (x, y)"
    by (simp_all add: c cellOf_def)
  let ?s1 = "s\<lparr>field := (field s)[nat y := (field s ! nat y)(x := v)],
            canvasOps := canvasOps s @ [drawOf (x, y, v)]\<rparr>"
  have step: "applyChange s c = Inr ?s1"
    unfolding c by (rule applyChange_eq[OF y])
  have "\<forall>c \<in> set cs. 0 \<le> fst (snd c) \<and> fst (snd c) < int (length (field ?s1)) \<and> snd (snd c) = g (cellOf c)"
    using Cons.prems by simp
  from Cons.IH[OF this] obtain f where
    run: "forEach applyChange cs ?s1 = Inr (?s1\<lparr>field := f, canvasOps := canvasOps ?s1 @ map drawOf cs\<rparr>)"
    and len: "length f = length (field ?s1)"
    and rd: "\<forall>x' y'. readCell (?s1\<lparr>field := f\<rparr>) y' x' =
          (if (x', y') \<in> cellOf ` set cs then Inr (g (x', y')) else readCell ?s1 y' x')"
    by blast
  have s1: "\<And>x' y'. readCell ?s1 y' x' = (if y' = y \<and> x' = x then Inr v else readCell s y' x')"
    using y by (auto simp: readCell_def fieldRow_def nth_list_update nat_eq_iff)
  show ?case
  proof (intro exI[of _ f] conjI allI)
    show "forEach applyChange (c # cs) s = Inr (s\<lparr>field := f, canvasOps := canvasOps s @ map drawOf (c # cs)\<rparr>)"
      using run step by (simp add: c)
    show "length f = length (field s)" using len by simp
    fix x' y'
    have "readCell (s\<lparr>field := f\<rparr>) y' x' = readCell (?s1\<lparr>field := f\<rparr>) y' x'"
      by (rule readCell_field_only) simp
    then show "readCell (s\<lparr>field := f\<rparr>) y' x' =
          (if (x', y') \<in> cellOf ` set (c # cs) then Inr (g (x', y')) else readCell s y' x')"
      using rd s1 v by (auto simp: c cellOf_def)
  qed
qed

section \<open>The three outcomes of updateField\<close>


lemma changedCells_row:
  "wellFormed s \<Longrightarrow> c \<in> set (changedCells s) \<Longrightarrow>
   0 \<le> fst (snd c) \<and> fst (snd c) < int (length (field s)) \<and> snd (snd c) = (\<lambda>(x, y). nextCell s x y) (cellOf c)"
  by (cases c) (auto simp: changedCells_mem cellOf_def wellFormed_def)

lemma updateField_changing:
  assumes wf: "wellFormed s" and ch: "changedCells s \<noteq> []"
  shows "\<exists>f. updateField s =
           Inr (s\<lparr>hasSignsOfLife := anyLife s, field := f,
                  canvasOps := canvasOps s @ map drawOf (changedCells s)\<rparr>) \<and>
         length f = length (field s) \<and>
         (\<forall>x y. readCell (s\<lparr>field := f\<rparr>) y x =
            (if (x, y) \<in> cellOf ` set (changedCells s) then Inr (nextCell s x y) else readCell s y x))"
proof -
  let ?s1 = "s\<lparr>hasSignsOfLife := anyLife s\<rparr>"
  have "\<forall>c \<in> set (changedCells s). 0 \<le> fst (snd c) \<and> fst (snd c) < int (length (field ?s1)) \<and>
          snd (snd c) = (\<lambda>(x, y). nextCell s x y) (cellOf c)"
    using changedCells_row[OF wf] by simp
  from applyChanges_eq[OF this] obtain f where
    run: "forEach applyChange (changedCells s) ?s1 =
            Inr (?s1\<lparr>field := f, canvasOps := canvasOps ?s1 @ map drawOf (changedCells s)\<rparr>)"
    and len: "length f = length (field ?s1)"
    and rd: "\<forall>x y. readCell (?s1\<lparr>field := f\<rparr>) y x =
          (if (x, y) \<in> cellOf ` set (changedCells s) then Inr (nextCell s x y) else readCell ?s1 y x)"
    by auto
  have same: "\<And>x y. readCell (s\<lparr>field := f\<rparr>) y x = readCell (?s1\<lparr>field := f\<rparr>) y x"
    "\<And>x y. readCell ?s1 y x = readCell s y x"
    by (rule readCell_field_only, simp)+
  show ?thesis
  proof (intro exI[of _ f] conjI)
    show "updateField s = Inr (s\<lparr>hasSignsOfLife := anyLife s, field := f,
                  canvasOps := canvasOps s @ map drawOf (changedCells s)\<rparr>)"
      using run ch by (simp add: updateField_def scanField_eq[OF wf] Let_def)
    show "length f = length (field s)" using len by simp
    show "\<forall>x y. readCell (s\<lparr>field := f\<rparr>) y x =
            (if (x, y) \<in> cellOf ` set (changedCells s) then Inr (nextCell s x y) else readCell s y x)"
      using rd same by simp
  qed
qed

lemma updateField_harmony:
  assumes wf: "wellFormed s" and ch: "changedCells s = []" and life: "anyLife s"
  shows "updateField s =
     Inr (alert (clearTimeout (cancelAnimationFrame (s\<lparr>hasSignsOfLife := True, isRunning := False\<rparr>) (frame s))
            (timeOut s)) harmonyMsg)"
  using ch life
  by (cases "frame s"; cases "timeOut s")
     (simp_all add: updateField_def scanField_eq[OF wf] Let_def alert_def clearTimeout_def cancelAnimationFrame_def)

lemma updateField_extinct:
  assumes wf: "wellFormed s" and ch: "changedCells s = []" and life: "\<not> anyLife s"
  shows "updateField s =
     reset (alert (clearTimeout (cancelAnimationFrame (s\<lparr>hasSignsOfLife := False, isRunning := False\<rparr>) (frame s))
            (timeOut s)) perishedMsg)"
  using ch life
  by (cases "frame s"; cases "timeOut s")
     (simp_all add: updateField_def scanField_eq[OF wf] Let_def alert_def clearTimeout_def cancelAnimationFrame_def
        split: sum.splits)

lemma generateField_ok:
  "0 \<le> rows s \<Longrightarrow> (0 < rows s \<longrightarrow> 0 \<le> cols s) \<Longrightarrow>
   generateField s = Inr (replicate (nat (rows s)) (zeroRow (cols s)))"
  by (auto simp: generateField_def)

lemma init_ok:
  "0 \<le> rows s \<Longrightarrow> (0 < rows s \<longrightarrow> 0 \<le> cols s) \<Longrightarrow>
   init s = Inr (s\<lparr>isRunning := False, aborted := False,
                   field := replicate (nat (rows s)) (zeroRow (cols s)),
                   hasSignsOfLife := True, canvasOps := canvasOps s @ [DrawGrid]\<rparr>)"
  by (simp add: init_def Let_def generateField_ok drawGrid_def)

lemma reset_ok:
  "0 \<le> rows s \<Longrightarrow> (0 < rows s \<longrightarrow> 0 \<le> cols s) \<Longrightarrow>
   reset s = Inr (s\<lparr>timers := (case timeOut s of None \<Rightarrow> timers s | Some h \<Rightarrow> removeAll h (timers s)),
                    frames := (case frame s of None \<Rightarrow> frames s | Some h \<Rightarrow> removeAll h (frames s)),
                    isRunning := False, aborted := False,
                    field := replicate (nat (rows s)) (zeroRow (cols s)),
                    hasSignsOfLife := True, canvasOps := canvasOps s @ [ClearRect, DrawGrid]\<rparr>)"
  by (cases "frame s"; cases "timeOut s")
     (simp_all add: reset_def Let_def init_ok clearTimeout_def cancelAnimationFrame_def)

lemma readCell_fresh:
  "0 \<le> y \<Longrightarrow> y < r \<Longrightarrow> 0 \<le> x \<Longrightarrow> x < c \<Longrightarrow>
   readCell (s\<lparr>field := replicate (nat r) (zeroRow c)\<rparr>) y x = Inr (Num 0)"
  by (simp add: readCell_def fieldRow_def zeroRow_def)

lemma wellFormed_rows: "wellFormed s \<Longrightarrow> 0 \<le> rows s \<and> (0 < rows s \<longrightarrow> 0 \<le> cols s) \<and> int (length (field s)) = rows s"
  by (auto simp: wellFormed_def)

section \<open>Well-formedness is kept by every operation\<close>


lemma wellFormed_fields:
  "cols s' = cols s \<Longrightarrow> rows s' = rows s \<Longrightarrow> field s' = field s \<Longrightarrow> wellFormed s' = wellFormed s"
  by (simp add: wellFormed_def readCell_def fieldRow_def)

lemma wellFormed_reads:
  assumes "wellFormed s" "cols s' = cols s" "rows s' = rows s" "length (field s') = length (field s)"
    and "\<And>x y. 0 \<le> x \<Longrightarrow> x < cols s \<Longrightarrow> 0 \<le> y \<Longrightarrow> y < rows s \<Longrightarrow>
           readCell s' y x = Inr (Num 0) \<or> readCell s' y x = Inr (Num 1)"
  shows "wellFormed s'"
  using assms by (simp add: wellFormed_def)

lemma wellFormed_proxySet:
  assumes wf: "wellFormed s" and y: "0 \<le> y" "y < rows s" and v: "v = Num 0 \<or> v = Num 1"
  shows "wellFormed (proxySet s y x v)"
proof (rule wellFormed_reads[OF wf])
  show "cols (proxySet s y x v) = cols s" "rows (proxySet s y x v) = rows s"
    "length (field (proxySet s y x v)) = length (field s)"
    by (simp_all add: proxySet_def drawCell_def Let_def)
next
  fix x' y' assume "0 \<le> x'" "x' < cols s" "0 \<le> y'" "y' < rows s"
  from wellFormed_cell[OF wf this(3,4,1,2)] v y wellFormed_rows[OF wf]
  show "readCell (proxySet s y x v) y' x' = Inr (Num 0) \<or> readCell (proxySet s y x v) y' x' = Inr (Num 1)"
    by (auto simp: readCell_proxySet)
qed

lemma cell_row_range:
  "0 \<le> oy \<Longrightarrow> oy < r * CELL_SIZE \<Longrightarrow> 0 \<le> oy div CELL_SIZE \<and> oy div CELL_SIZE < r"
  by (simp add: CELL_SIZE_def pos_imp_zdiv_nonneg_iff div_less_iff_less_mult mult.commute) 

lemma setFirstGen_paints:
  assumes wf: "wellFormed s" and b: "buttons e = 1" and oy: "0 \<le> offsetY e" "offsetY e < rows s * CELL_SIZE"
  shows "setFirstGen s e =
     Inr (proxySet s (offsetY e div CELL_SIZE) (offsetX e div CELL_SIZE) (Num (if isSetting s then 1 else 0)))"
  using b oy cell_row_range[OF oy] wellFormed_rows[OF wf]
  by (simp add: setFirstGen_def canvas_height_def getCellCoords_def assignCell_def fieldRow_def)

lemma setFirstGen_ignores:
  "buttons e \<noteq> 1 \<or> offsetY e < 0 \<or> offsetY e \<ge> rows s * CELL_SIZE \<Longrightarrow> setFirstGen s e = Inr s"
  by (auto simp: setFirstGen_def canvas_height_def)

lemma setFirstGen_wellFormed:
  assumes wf: "wellFormed s"
  shows "\<exists>s'. setFirstGen s e = Inr s' \<and> wellFormed s'"
proof (cases "buttons e \<noteq> 1 \<or> offsetY e < 0 \<or> offsetY e \<ge> rows s * CELL_SIZE")
  case True
  then show ?thesis using wf by (simp add: setFirstGen_ignores)
next
  case False
  then have b: "buttons e = 1" and oy: "0 \<le> offsetY e" "offsetY e < rows s * CELL_SIZE" by auto
  show ?thesis
    using setFirstGen_paints[OF wf b oy] wellFormed_proxySet[OF wf] cell_row_range[OF oy]
    by simp
qed

lemma setMode_wellFormed:
  assumes wf: "wellFormed s"
  shows "\<exists>s'. setMode s e = Inr s' \<and> wellFormed s'"
proof -
  let ?s1 = "s\<lparr>isSetting := \<not> truthy (readCellOpt s (offsetY e div CELL_SIZE) (offsetX e div CELL_SIZE))\<rparr>"
  have "wellFormed ?s1" using wf wellFormed_fields[of ?s1 s] by simp
  from setFirstGen_wellFormed[OF this, of e] show ?thesis
    by (simp add: setMode_def getCellCoords_def)
qed

lemma wellFormed_fresh:
  assumes "0 \<le> rows s" "0 < rows s \<longrightarrow> 0 \<le> cols s" "cols s' = cols s" "rows s' = rows s"
    "field s' = replicate (nat (rows s)) (zeroRow (cols s))"
  shows "wellFormed s'"
  using assms by (auto simp: wellFormed_def readCell_def fieldRow_def zeroRow_def)

lemma reset_wellFormed:
  assumes "0 \<le> rows s" "0 < rows s \<longrightarrow> 0 \<le> cols s"
  shows "\<exists>s'. reset s = Inr s' \<and> wellFormed s' \<and> cols s' = cols s \<and> rows s' = rows s"
  using assms by (auto simp: reset_ok intro!: wellFormed_fresh[OF assms])

lemma GameOfLife_wellFormed: "GameOfLife c r = Inr s \<Longrightarrow> wellFormed s"
  by (auto simp: GameOfLife_def init_def Let_def generateField_def drawGrid_def
                 wellFormed_def readCell_def fieldRow_def zeroRow_def split: if_splits)

lemma unchanged_cell:
  assumes wf: "wellFormed s" and r: "0 \<le> x" "x < cols s" "0 \<le> y" "y < rows s"
    and nc: "(x, y) \<notin> cellOf ` set (changedCells s)"
  shows "nextCell s x y = Num (liveAt s x y)"
proof (rule ccontr)
  assume "nextCell s x y \<noteq> Num (liveAt s x y)"
  with r have "(x, y, nextCell s x y) \<in> set (changedCells s)" by (simp add: changedCells_mem)
  then have "cellOf (x, y, nextCell s x y) \<in> cellOf ` set (changedCells s)" by (rule imageI)
  with nc show False by (simp add: cellOf_def)
qed

lemma updateField_wellFormed:
  assumes wf: "wellFormed s"
  shows "\<exists>s'. updateField s = Inr s' \<and> wellFormed s' \<and> cols s' = cols s \<and> rows s' = rows s"
proof (cases "changedCells s = []")
  case False
  from updateField_changing[OF wf False] obtain f where
    u: "updateField s = Inr (s\<lparr>hasSignsOfLife := anyLife s, field := f,
                  canvasOps := canvasOps s @ map drawOf (changedCells s)\<rparr>)"
    and len: "length f = length (field s)"
    and rd: "\<forall>x y. readCell (s\<lparr>field := f\<rparr>) y x =
            (if (x, y) \<in> cellOf ` set (changedCells s) then Inr (nextCell s x y) else readCell s y x)"
    by blast
  let ?s' = "s\<lparr>hasSignsOfLife := anyLife s, field := f,
                  canvasOps := canvasOps s @ map drawOf (changedCells s)\<rparr>"
  have "wellFormed ?s'"
  proof (rule wellFormed_reads[OF wf])
    fix x y assume r: "0 \<le> x" "x < cols s" "0 \<le> y" "y < rows s"
    have "readCell ?s' y x = readCell (s\<lparr>field := f\<rparr>) y x"
      by (rule readCell_field_only) simp
    then show "readCell ?s' y x = Inr (Num 0) \<or> readCell ?s' y x = Inr (Num 1)"
      using rd wellFormed_cell[OF wf r(3,4,1,2)] nextCell_binary[of s x y] by auto
  qed (simp_all add: len)
  with u show ?thesis by simp
next
  case True
  show ?thesis
  proof (cases "anyLife s")
    case True
    have "wellFormed (alert (clearTimeout (cancelAnimationFrame (s\<lparr>hasSignsOfLife := True, isRunning := False\<rparr>) (frame s))
            (timeOut s)) harmonyMsg)"
      using wf
      by (cases "frame s"; cases "timeOut s")
         (simp_all add: alert_def clearTimeout_def cancelAnimationFrame_def wellFormed_def readCell_def fieldRow_def)
    then show ?thesis
      using updateField_harmony[OF wf \<open>changedCells s = []\<close> True]
      by (cases "frame s"; cases "timeOut s") (simp_all add: alert_def clearTimeout_def cancelAnimationFrame_def)
  next
    case False
    let ?s5 = "alert (clearTimeout (cancelAnimationFrame (s\<lparr>hasSignsOfLife := False, isRunning := False\<rparr>) (frame s))
            (timeOut s)) perishedMsg"
    have dims: "rows ?s5 = rows s" "cols ?s5 = cols s"
      by (cases "frame s"; cases "timeOut s"; simp add: alert_def clearTimeout_def cancelAnimationFrame_def)+
    have "0 \<le> rows ?s5" "0 < rows ?s5 \<longrightarrow> 0 \<le> cols ?s5"
      using wellFormed_rows[OF wf] by (simp_all add: dims)
    from reset_wellFormed[OF this] show ?thesis
      using updateField_extinct[OF wf \<open>changedCells s = []\<close> False] by (simp add: dims)
  qed
qed

lemma render_wellFormed:
  assumes wf: "wellFormed s"
  shows "\<exists>s'. render s = Inr s' \<and> wellFormed s'"
proof (cases "isRunning s")
  case False
  then show ?thesis using wf by (simp add: render_def)
next
  case True
  from updateField_wellFormed[OF wf] obtain s1 where u: "updateField s = Inr s1" and w: "wellFormed s1"
    by blast
  have "wellFormed (setTimeout s1)"
    using w wellFormed_fields[of "setTimeout s1" s1] by (simp add: setTimeout_def)
  then show ?thesis using True u by (simp add: render_def)
qed

lemma start_wellFormed:
  assumes wf: "wellFormed s"
  shows "\<exists>s'. start s = Inr s' \<and> wellFormed s'"
proof (cases "isRunning s")
  case True
  then show ?thesis using wf by (simp add: start_def)
next
  case False
  have "wellFormed (s\<lparr>isRunning := True, aborted := True\<rparr>)"
    using wf wellFormed_fields[of "s\<lparr>isRunning := True, aborted := True\<rparr>" s] by simp
  from render_wellFormed[OF this] show ?thesis using False by (simp add: start_def)
qed

lemma step_wellFormed:
  assumes wf: "wellFormed s"
  shows "\<exists>s'. step s ev = Inr s' \<and> wellFormed s'"
proof (cases ev)
  case (MouseDown e)
  then show ?thesis using wf setMode_wellFormed[OF wf, of e] by simp
next
  case (MouseMove e)
  then show ?thesis using wf setFirstGen_wellFormed[OF wf, of e] by simp
next
  case ClickStart
  then show ?thesis using start_wellFormed[OF wf] by simp
next
  case ClickReset
  then show ?thesis using reset_wellFormed[of s] wellFormed_rows[OF wf] by auto
next
  case (TimerFired h)
  have "wellFormed (requestAnimationFrame (s\<lparr>timers := removeAll h (timers s)\<rparr>))"
    using wf wellFormed_fields[of "requestAnimationFrame (s\<lparr>timers := removeAll h (timers s)\<rparr>)" s]
    by (simp add: requestAnimationFrame_def)
  then show ?thesis using TimerFired wf by simp
next
  case (FrameFired h)
  have "wellFormed (s\<lparr>frames := removeAll h (frames s)\<rparr>)"
    using wf wellFormed_fields[of "s\<lparr>frames := removeAll h (frames s)\<rparr>" s] by simp
  from render_wellFormed[OF this] show ?thesis using FrameFired wf by simp
qed

section \<open>Host functions and reset\<close>



lemma alert_fields:
  "cols (alert s m) = cols s" "rows (alert s m) = rows s" "field (alert s m) = field s"
  "isSetting (alert s m) = isSetting s" "timeOut (alert s m) = timeOut s" "frame (alert s m) = frame s"
  "isRunning (alert s m) = isRunning s" "aborted (alert s m) = aborted s"
  "hasSignsOfLife (alert s m) = hasSignsOfLife s" "canvasOps (alert s m) = canvasOps s"
  "alerts (alert s m) = alerts s @ [m]" "timers (alert s m) = timers s" "frames (alert s m) = frames s"
  "nextTimer (alert s m) = nextTimer s" "nextFrame (alert s m) = nextFrame s"
  by (simp_all add: alert_def)

lemma clearTimeout_fields:
  "cols (clearTimeout s h) = cols s" "rows (clearTimeout s h) = rows s" "field (clearTimeout s h) = field s"
  "isSetting (clearTimeout s h) = isSetting s" "timeOut (clearTimeout s h) = timeOut s"
  "frame (clearTimeout s h) = frame s" "isRunning (clearTimeout s h) = isRunning s"
  "aborted (clearTimeout s h) = aborted s" "hasSignsOfLife (clearTimeout s h) = hasSignsOfLife s"
  "canvasOps (clearTimeout s h) = canvasOps s" "alerts (clearTimeout s h) = alerts s"
  "frames (clearTimeout s h) = frames s" "nextTimer (clearTimeout s h) = nextTimer s"
  "nextFrame (clearTimeout s h) = nextFrame s"
  "timers (clearTimeout s h) = (case h of None \<Rightarrow> timers s | Some i \<Rightarrow> removeAll i (timers s))"
  by (cases h; simp add: clearTimeout_def)+

lemma cancelAnimationFrame_fields:
  "cols (cancelAnimationFrame s h) = cols s" "rows (cancelAnimationFrame s h) = rows s"
  "field (cancelAnimationFrame s h) = field s" "isSetting (cancelAnimationFrame s h) = isSetting s"
  "timeOut (cancelAnimationFrame s h) = timeOut s" "frame (cancelAnimationFrame s h) = frame s"
  "isRunning (cancelAnimationFrame s h) = isRunning s" "aborted (cancelAnimationFrame s h) = aborted s"
  "hasSignsOfLife (cancelAnimationFrame s h) = hasSignsOfLife s"
  "canvasOps (cancelAnimationFrame s h) = canvasOps s" "alerts (cancelAnimationFrame s h) = alerts s"
  "timers (cancelAnimationFrame s h) = timers s" "nextTimer (cancelAnimationFrame s h) = nextTimer s"
  "nextFrame (cancelAnimationFrame s h) = nextFrame s"
  "frames (cancelAnimationFrame s h) = (case h of None \<Rightarrow> frames s | Some i \<Rightarrow> removeAll i (frames s))"
  by (cases h; simp add: cancelAnimationFrame_def)+

lemma reset_result:
  assumes "0 \<le> rows s" "0 < rows s \<longrightarrow> 0 \<le> cols s"
  shows "\<exists>s'. reset s = Inr s' \<and> cols s' = cols s \<and> rows s' = rows s \<and>
           field s' = replicate (nat (rows s)) (zeroRow (cols s)) \<and>
           \<not> isRunning s' \<and> alerts s' = alerts s \<and>
           timers s' = (case timeOut s of None \<Rightarrow> timers s | Some h \<Rightarrow> removeAll h (timers s)) \<and>
           frames s' = (case frame s of None \<Rightarrow> frames s | Some h \<Rightarrow> removeAll h (frames s)) \<and>
           canvasOps s' = canvasOps s @ [ClearRect, DrawGrid]"
  by (simp add: reset_ok[OF assms])

lemma readCell_zero:
  "field s = replicate (nat r) (zeroRow c) \<Longrightarrow> 0 \<le> y \<Longrightarrow> y < r \<Longrightarrow> 0 \<le> x \<Longrightarrow> x < c \<Longrightarrow>
   readCell s y x = Inr (Num 0)"
  by (simp add: readCell_def fieldRow_def zeroRow_def)


lemma anyLife_iff:
  assumes wf: "wellFormed s"
  shows "anyLife s \<longleftrightarrow>
     (\<exists>x y. 0 \<le> x \<and> x < cols s \<and> 0 \<le> y \<and> y < rows s \<and> getCellState s x y = Inr (Num 1))"
proof
  assume "anyLife s"
  then obtain x y where r: "0 \<le> x" "x < cols s" "0 \<le> y" "y < rows s" and n: "nextCell s x y = Num 1"
    by (auto simp: anyLife_def)
  from getCellState_nextCell[OF wf r] n r show
    "\<exists>x y. 0 \<le> x \<and> x < cols s \<and> 0 \<le> y \<and> y < rows s \<and> getCellState s x y = Inr (Num 1)"
    by auto
next
  assume "\<exists>x y. 0 \<le> x \<and> x < cols s \<and> 0 \<le> y \<and> y < rows s \<and> getCellState s x y = Inr (Num 1)"
  then obtain x y where r: "0 \<le> x" "x < cols s" "0 \<le> y" "y < rows s"
    and g: "getCellState s x y = Inr (Num 1)" by blast
  from getCellState_nextCell[OF wf r] g have "nextCell s x y = Num 1" by simp
  with r have "x \<in> set [0..cols s - 1]" "y \<in> set [0..rows s - 1]" "nextCell s x y = Num 1"
    by simp_all
  then show "anyLife s" unfolding anyLife_def by blast
qed

section \<open>Painting and the scheduler\<close>

lemma readCell_assignCell:
  "0 \<le> y \<Longrightarrow> y < int (length (field s)) \<Longrightarrow>
   assignCell s y x v = Inr (proxySet s y x v) \<and>
   canvasOps (proxySet s y x v) = canvasOps s @ [DrawCell (x * CELL_SIZE) (y * CELL_SIZE) (cellColour v)]"
  by (simp add: assignCell_def fieldRow_def proxySet_def drawCell_def Let_def)


lemma setMode_result:
  assumes wf: "wellFormed s"
  shows "\<exists>s'. setMode s e = Inr s' \<and>
           isSetting s' = (\<not> truthy (readCellOpt s (offsetY e div CELL_SIZE) (offsetX e div CELL_SIZE)))"
proof -
  let ?b = "\<not> truthy (readCellOpt s (offsetY e div CELL_SIZE) (offsetX e div CELL_SIZE))"
  let ?s1 = "s\<lparr>isSetting := ?b\<rparr>"
  have wf1: "wellFormed ?s1" using wf wellFormed_fields[of ?s1 s] by simp
  have m: "setMode s e = setFirstGen ?s1 e" by (simp add: setMode_def getCellCoords_def)
  show ?thesis
  proof (cases "buttons e \<noteq> 1 \<or> offsetY e < 0 \<or> offsetY e \<ge> rows ?s1 * CELL_SIZE")
    case True
    from setFirstGen_ignores[OF True] m show ?thesis by simp
  next
    case False
    then have b: "buttons e = 1" and oy: "0 \<le> offsetY e" "offsetY e < rows ?s1 * CELL_SIZE" by auto
    from setFirstGen_paints[OF wf1 b oy] m show ?thesis
      by (simp add: proxySet_def drawCell_def Let_def)
  qed
qed



lemma stopped_stays:
  "\<not> isRunning s \<Longrightarrow> list_all hostCallback evs \<Longrightarrow>
   \<exists>s'. run (Inr s) evs = Inr s' \<and> \<not> isRunning s' \<and> field s' = field s \<and>
        alerts s' = alerts s \<and> canvasOps s' = canvasOps s"
proof (induction evs arbitrary: s)
  case Nil
  then show ?case by simp
next
  case (Cons ev evs)
  from Cons.prems(2) have h: "hostCallback ev" and rest: "list_all hostCallback evs" by simp_all
  from h Cons.prems(1) have
    "\<exists>s1. step s ev = Inr s1 \<and> \<not> isRunning s1 \<and> field s1 = field s \<and> alerts s1 = alerts s \<and>
        canvasOps s1 = canvasOps s"
    by (cases ev) (simp_all add: hostCallback_def render_def requestAnimationFrame_def)
  then obtain s1 where
    s1: "step s ev = Inr s1" "\<not> isRunning s1" "field s1 = field s" "alerts s1 = alerts s"
      "canvasOps s1 = canvasOps s"
    by blast
  from Cons.IH[OF s1(2) rest] s1 show ?case by auto
qed


lemma updateField_stops:
  assumes wf: "wellFormed s" and sc: "scanField s = Inr ([], life)"
  shows "\<exists>s'. updateField s = Inr s' \<and> \<not> isRunning s' \<and>
      (\<forall>h. timeOut s = Some h \<longrightarrow> h \<notin> set (timers s')) \<and>
      (\<forall>h. frame s = Some h \<longrightarrow> h \<notin> set (frames s')) \<and>
      set (timers s') \<subseteq> set (timers s) \<and> set (frames s') \<subseteq> set (frames s) \<and>
      alerts s' = alerts s @ [if life then harmonyMsg else perishedMsg] \<and>
      (life \<longleftrightarrow> (\<exists>x y. 0 \<le> x \<and> x < cols s \<and> 0 \<le> y \<and> y < rows s \<and>
                           getCellState s x y = Inr (Num 1))) \<and>
      render s' = Inr s'"
proof -
  from sc scanField_eq[OF wf] have ch: "changedCells s = []" and l: "life = anyLife s" by simp_all
  note li = anyLife_iff[OF wf]
  show ?thesis
  proof (cases "anyLife s")
    case True
    show ?thesis
      using updateField_harmony[OF wf ch True] True l li
      by (auto simp: alert_fields clearTimeout_fields cancelAnimationFrame_fields render_def
               split: option.splits)
  next
    case False
    let ?s5 = "alert (clearTimeout (cancelAnimationFrame (s\<lparr>hasSignsOfLife := False, isRunning := False\<rparr>) (frame s))
            (timeOut s)) perishedMsg"
    have dims: "rows ?s5 = rows s" "cols ?s5 = cols s"
      by (simp_all add: alert_fields clearTimeout_fields cancelAnimationFrame_fields)
    have ok: "0 \<le> rows ?s5" "0 < rows ?s5 \<longrightarrow> 0 \<le> cols ?s5"
      using wellFormed_rows[OF wf] by (simp_all add: dims)
    from reset_result[OF ok] obtain s' where
      rs: "reset ?s5 = Inr s'" and run: "\<not> isRunning s'" and al: "alerts s' = alerts ?s5"
      and ti: "timers s' = (case timeOut ?s5 of None \<Rightarrow> timers ?s5 | Some h \<Rightarrow> removeAll h (timers ?s5))"
      and fr: "frames s' = (case frame ?s5 of None \<Rightarrow> frames ?s5 | Some h \<Rightarrow> removeAll h (frames ?s5))"
      by blast
    have "updateField s = Inr s'"
      using updateField_extinct[OF wf ch False] rs by simp
    moreover have "alerts s' = alerts s @ [perishedMsg]"
      using al by (simp add: alert_fields clearTimeout_fields cancelAnimationFrame_fields)
    moreover have "\<forall>h. timeOut s = Some h \<longrightarrow> h \<notin> set (timers s')" "set (timers s') \<subseteq> set (timers s)"
      using ti by (auto simp: alert_fields clearTimeout_fields cancelAnimationFrame_fields split: option.splits)
    moreover have "\<forall>h. frame s = Some h \<longrightarrow> h \<notin> set (frames s')" "set (frames s') \<subseteq> set (frames s)"
      using fr by (auto simp: alert_fields clearTimeout_fields cancelAnimationFrame_fields split: option.splits)
    moreover have "render s' = Inr s'" using run by (simp add: render_def)
    moreover have "\<not> life" using False l by simp
    moreover have "\<not> (\<exists>x y. 0 \<le> x \<and> x < cols s \<and> 0 \<le> y \<and> y < rows s \<and>
                           getCellState s x y = Inr (Num 1))"
      using False li by simp
    ultimately show ?thesis using run by auto
  qed
qed

section \<open>The example states\<close>


text \<open>
  The example states are states of the program: painting them cell by cell on a new
  object gives the same reads on the whole grid.
\<close>

lemma examples_reachable:
  "GameOfLife 3 3 = Inr emptyGrid3"
  "map_sum id (\<lambda>s. [[readCell s y x. x \<leftarrow> [0..2]]. y \<leftarrow> [0..2]])
     (run (GameOfLife 3 3) [MouseDown \<lparr>offsetX = 0, offsetY = 0, buttons = 1\<rparr>]) =
   Inr [[readCell cornerGrid3 y x. x \<leftarrow> [0..2]]. y \<leftarrow> [0..2]]"
  "map_sum id (\<lambda>s. [[readCell s y x. x \<leftarrow> [0..4]]. y \<leftarrow> [0..4]])
     (run (GameOfLife 5 5)
        [MouseDown \<lparr>offsetX = 15, offsetY = 30, buttons = 1\<rparr>,
         MouseMove \<lparr>offsetX = 30, offsetY = 30, buttons = 1\<rparr>,
         MouseMove \<lparr>offsetX = 45, offsetY = 30, buttons = 1\<rparr>]) =
   Inr [[readCell blinker5 y x. x \<leftarrow> [0..4]]. y \<leftarrow> [0..4]]"
  "map_sum id (\<lambda>s. [[readCell s y x. x \<leftarrow> [0..3]]. y \<leftarrow> [0..3]])
     (run (GameOfLife 4 4)
        [MouseDown \<lparr>offsetX = 15, offsetY = 15, buttons = 1\<rparr>,
         MouseMove \<lparr>offsetX = 30, offsetY = 15, buttons = 1\<rparr>,
         MouseMove \<lparr>offsetX = 30, offsetY = 30, buttons = 1\<rparr>,
         MouseMove \<lparr>offsetX = 15, offsetY = 30, buttons = 1\<rparr>]) =
   Inr [[readCell block4 y x. x \<leftarrow> [0..3]]. y \<leftarrow> [0..3]]"
  "map_sum id (\<lambda>s. [[readCell s y x. x \<leftarrow> [0..2]]. y \<leftarrow> [0..2]])
     (run (GameOfLife 3 3)
        [MouseMove \<lparr>offsetX = x * 15, offsetY = y * 15, buttons = 1\<rparr>. y \<leftarrow> [0..2], x \<leftarrow> [0..2]]) =
   Inr [[readCell fullGrid3 y x. x \<leftarrow> [0..2]]. y \<leftarrow> [0..2]]"
proof -
  show "GameOfLife 3 3 = Inr emptyGrid3"
    by (simp add: GameOfLife_def init_def generateField_def drawGrid_def emptyGrid3_def gameWith_def
                  numeral_3_eq_3)
qed code_simp+

section \<open>The claims\<close>

text \<open>
  Claim C2. getCellState implements the classic B3/S23 rule with the thresholds
  OVERPOPULATION = 3, UNDERPOPULATION = 2, NEWBORN = 3: for every neighbour count from 0
  to 8, a live cell dies exactly when the count is above 3 or below 2 and survives exactly
  when it is 2 or 3, and a dead cell becomes alive exactly when the count is 3 and stays
  dead otherwise. getCellState returns the rule's result on the cell it read and the count
  it got.
\<close>

theorem getCellState_rule_table:
  "OVERPOPULATION = 3 \<and> UNDERPOPULATION = 2 \<and> NEWBORN = 3 \<and>
   (\<forall>n \<in> {0..8}.
      (nextState (Num 1) (Num n) = Num 0 \<longleftrightarrow> n > 3 \<or> n < 2) \<and>
      (nextState (Num 1) (Num n) = Num 1 \<longleftrightarrow> n = 2 \<or> n = 3) \<and>
      (nextState (Num 0) (Num n) = Num 1 \<longleftrightarrow> n = 3) \<and>
      (nextState (Num 0) (Num n) = Num 0 \<longleftrightarrow> n \<noteq> 3)) \<and>
   (\<forall>cur \<in> {0, 1}. \<forall>n \<in> {0..8}.
      readCell s y x = Inr (Num cur) \<and> getNeighboursCount s x y = Inr (Num n) \<longrightarrow>
      getCellState s x y = Inr (nextState (Num cur) (Num n)))"
  by (auto simp: nextState_def getCellState_def OVERPOPULATION_def UNDERPOPULATION_def NEWBORN_def)

text \<open>
  Claim C2, witness: the middle cell of the blinker is alive with two live neighbours and
  survives; the dead cell above it has three and is born.
\<close>

theorem getCellState_rule_table_witness:
  "readCell blinker5 2 2 = Inr (Num 1) \<and> getNeighboursCount blinker5 2 2 = Inr (Num 2) \<and>
   getCellState blinker5 2 2 = Inr (Num 1) \<and>
   readCell blinker5 1 2 = Inr (Num 0) \<and> getNeighboursCount blinker5 2 1 = Inr (Num 3) \<and>
   getCellState blinker5 2 1 = Inr (Num 1) \<and>
   nextState (Num 1) (Num 4) = Num 0 \<and> nextState (Num 1) (Num 1) = Num 0 \<and>
   nextState (Num 0) (Num 2) = Num 0"
proof -
  have a: "readCell blinker5 2 2 = Inr (Num 1)" "getNeighboursCount blinker5 2 2 = Inr (Num 2)"
    and b: "readCell blinker5 1 2 = Inr (Num 0)" "getNeighboursCount blinker5 2 1 = Inr (Num 3)"
    by code_simp+
  note live = getCellState_rule_table[of blinker5 2 2, THEN conjunct2, THEN conjunct2, THEN conjunct2]
  note dead = getCellState_rule_table[of blinker5 1 2, THEN conjunct2, THEN conjunct2, THEN conjunct2]
  have tab: "nextState (Num 1) (Num 2) = Num 1" "nextState (Num 0) (Num 3) = Num 1"
    "nextState (Num 1) (Num 4) = Num 0" "nextState (Num 1) (Num 1) = Num 0"
    "nextState (Num 0) (Num 2) = Num 0"
    using live[THEN conjunct1] by simp_all
  have "getCellState blinker5 2 2 = Inr (nextState (Num 1) (Num 2))"
    using live[THEN conjunct2] a by simp
  moreover have "getCellState blinker5 2 1 = Inr (nextState (Num 0) (Num 3))"
    using dead[THEN conjunct2] b by simp
  ultimately show ?thesis using a b tab by simp
qed

text \<open>
  Claim C5. On every well-formed state and every cell of the grid, getCellState, which
  applies the rule to the count of the early-exiting loop, returns what the rule gives on
  the full sum of the eight wrapped neighbours: the early exit never changes the outcome,
  for a live cell or a dead one.
\<close>

theorem early_exit_same_outcome:
  assumes "wellFormed s" "0 \<le> x" "x < cols s" "0 \<le> y" "y < rows s"
  shows "\<exists>c cur. getNeighboursCount s x y = Inr c \<and> readCell s y x = Inr cur \<and>
           getCellState s x y = Inr (nextState cur c) \<and>
           nextState cur c = nextState cur (Num (fullCount s x y))"
  using getNeighboursCount_capped[OF assms] readCell_liveAt[OF assms(1,4,5,2,3)]
  by (simp add: getCellState_def nextState_capped)

text \<open>
  Claim C5, witness: on the full 3 by 3 grid the loop stops at 4 where the full sum is 8,
  and the live centre cell dies either way.
\<close>

theorem early_exit_same_outcome_witness:
  "wellFormed fullGrid3 \<and> getNeighboursCount fullGrid3 1 1 = Inr (Num 4) \<and> fullCount fullGrid3 1 1 = 8 \<and>
   readCell fullGrid3 1 1 = Inr (Num 1) \<and> getCellState fullGrid3 1 1 = Inr (Num 0) \<and>
   nextState (Num 1) (Num 4) = nextState (Num 1) (Num 8)"
proof -
  have wf: "wellFormed fullGrid3" by code_simp
  have e: "getNeighboursCount fullGrid3 1 1 = Inr (Num 4)" "fullCount fullGrid3 1 1 = 8"
    "readCell fullGrid3 1 1 = Inr (Num 1)" "getCellState fullGrid3 1 1 = Inr (Num 0)"
    by code_simp+
  have r: "(0::int) \<le> 1" "(1::int) < cols fullGrid3" "(1::int) < rows fullGrid3"
    by (simp_all add: fullGrid3_def gameWith_def)
  from early_exit_same_outcome[OF wf r(1,2,1,3)] e wf show ?thesis by simp
qed

text \<open>
  Claim C6 as stated, refuted: getNeighboursCount does not always return the sum of all
  eight wrapped neighbours. On the full 3 by 3 grid every neighbour of (1, 1) is alive, the
  full sum is 8, and the function returns 4.
\<close>

theorem count_stops_short_of_full_sum:
  "wellFormed fullGrid3 \<and> getNeighboursCount fullGrid3 1 1 = Inr (Num 4) \<and> fullCount fullGrid3 1 1 = 8"
  by code_simp

text \<open>
  Claim C6, amended. For every cell of the grid of a well-formed state, getNeighboursCount
  returns the sum of the eight toroidally wrapped neighbours (the offsets of NEIGHBOURS:
  eight distinct ones, the cell itself not among them; a coordinate below 0 wraps to the
  dimension minus 1, one at or above the dimension wraps to 0), capped at
  OVERPOPULATION + 1 = 4, where the loop breaks. On the 3 by 3 grid whose only live cell
  is (0, 0), the count at (2, 2) is 1.
\<close>

theorem getNeighboursCount_wrapped_capped:
  "(wellFormed s \<and> 0 \<le> cx \<and> cx < cols s \<and> 0 \<le> cy \<and> cy < rows s \<longrightarrow>
      getNeighboursCount s cx cy = Inr (Num (min (fullCount s cx cy) (OVERPOPULATION + 1))) \<and>
      fullCount s cx cy =
        (\<Sum>(dx, dy) \<leftarrow> NEIGHBOURS.
           liveAt s (if cx + dx < 0 then cols s - 1 else if cx + dx \<ge> cols s then 0 else cx + dx)
                    (if cy + dy < 0 then rows s - 1 else if cy + dy \<ge> rows s then 0 else cy + dy)) \<and>
      length NEIGHBOURS = 8 \<and> distinct NEIGHBOURS \<and> (0, 0) \<notin> set NEIGHBOURS) \<and>
   getNeighboursCount cornerGrid3 2 2 = Inr (Num 1)"
proof -
  have ex: "getNeighboursCount cornerGrid3 2 2 = Inr (Num 1)" by code_simp
  have nb: "length NEIGHBOURS = 8" "distinct NEIGHBOURS" "(0, 0) \<notin> set NEIGHBOURS"
    by (simp_all add: NEIGHBOURS_def)
  have fc: "fullCount s cx cy =
        (\<Sum>(dx, dy) \<leftarrow> NEIGHBOURS.
           liveAt s (if cx + dx < 0 then cols s - 1 else if cx + dx \<ge> cols s then 0 else cx + dx)
                    (if cy + dy < 0 then rows s - 1 else if cy + dy \<ge> rows s then 0 else cy + dy))"
    by (simp add: fullCount_def eightOffsets_NEIGHBOURS wrapAround_def)
  show ?thesis
    using getNeighboursCount_capped[of s cx cy] ex nb fc by (simp add: min.commute)
qed

text \<open>
  Claim C6, witness: the corner grid at (2, 2), where the sum 1 is returned as it is, and
  the full grid at (0, 0), where the sum 8 is returned as 4.
\<close>

theorem getNeighboursCount_wrapped_capped_witness:
  "wellFormed cornerGrid3 \<and> fullCount cornerGrid3 2 2 = 1 \<and>
   getNeighboursCount cornerGrid3 2 2 = Inr (Num (min 1 (OVERPOPULATION + 1))) \<and>
   wellFormed fullGrid3 \<and> fullCount fullGrid3 0 0 = 8 \<and>
   getNeighboursCount fullGrid3 0 0 = Inr (Num (min 8 (OVERPOPULATION + 1)))"
proof -
  have wf: "wellFormed cornerGrid3" "wellFormed fullGrid3" by code_simp+
  have fc: "fullCount cornerGrid3 2 2 = 1" "fullCount fullGrid3 0 0 = 8" by code_simp+
  have r: "(0::int) \<le> 2" "(2::int) < cols cornerGrid3" "(2::int) < rows cornerGrid3"
     "(0::int) \<le> 0" "(0::int) < cols fullGrid3" "(0::int) < rows fullGrid3"
    by (simp_all add: cornerGrid3_def fullGrid3_def gameWith_def)
  show ?thesis
    using getNeighboursCount_wrapped_capped[of cornerGrid3 2 2]
      getNeighboursCount_wrapped_capped[of fullGrid3 0 0] wf fc r
    by simp
qed

text \<open>
  Claim C1. On every well-formed state updateField returns, and afterwards every cell
  (x, y) of the grid holds what getCellState computes for it on the state before the call:
  the whole scan reads the prior generation, and the writes come after it.
\<close>

theorem updateField_synchronous:
  assumes wf: "wellFormed s"
  shows "\<exists>s'. updateField s = Inr s' \<and> cols s' = cols s \<and> rows s' = rows s \<and>
           (\<forall>x y. 0 \<le> x \<and> x < cols s \<and> 0 \<le> y \<and> y < rows s \<longrightarrow>
                    readCell s' y x = getCellState s x y)"
proof (cases "changedCells s = []")
  case False
  from updateField_changing[OF wf False] obtain f where
    u: "updateField s = Inr (s\<lparr>hasSignsOfLife := anyLife s, field := f,
                  canvasOps := canvasOps s @ map drawOf (changedCells s)\<rparr>)"
    and rd: "\<forall>x y. readCell (s\<lparr>field := f\<rparr>) y x =
            (if (x, y) \<in> cellOf ` set (changedCells s) then Inr (nextCell s x y) else readCell s y x)"
    by blast
  let ?s' = "s\<lparr>hasSignsOfLife := anyLife s, field := f,
                  canvasOps := canvasOps s @ map drawOf (changedCells s)\<rparr>"
  have "readCell ?s' y x = getCellState s x y"
    if r: "0 \<le> x" "x < cols s" "0 \<le> y" "y < rows s" for x y
  proof -
    have "readCell ?s' y x = readCell (s\<lparr>field := f\<rparr>) y x"
      by (rule readCell_field_only) simp
    also have "\<dots> = Inr (nextCell s x y)"
      using rd unchanged_cell[OF wf r] readCell_liveAt[OF wf r(3,4,1,2)] by auto
    finally show ?thesis by (simp add: getCellState_nextCell[OF wf r])
  qed
  with u show ?thesis by simp
next
  case True
  have same: "nextCell s x y = Num (liveAt s x y)"
    if r: "0 \<le> x" "x < cols s" "0 \<le> y" "y < rows s" for x y
    using unchanged_cell[OF wf r] True by simp
  show ?thesis
  proof (cases "anyLife s")
    case True
    let ?s' = "alert (clearTimeout (cancelAnimationFrame (s\<lparr>hasSignsOfLife := True, isRunning := False\<rparr>) (frame s))
            (timeOut s)) harmonyMsg"
    have f: "field ?s' = field s" "cols ?s' = cols s" "rows ?s' = rows s"
      by (simp_all add: alert_fields clearTimeout_fields cancelAnimationFrame_fields)
    have "readCell ?s' y x = getCellState s x y"
      if r: "0 \<le> x" "x < cols s" "0 \<le> y" "y < rows s" for x y
      using readCell_field_only[OF f(1), of y x] readCell_liveAt[OF wf r(3,4,1,2)] same[OF r]
      by (simp add: getCellState_nextCell[OF wf r])
    then show ?thesis
      using updateField_harmony[OF wf \<open>changedCells s = []\<close> True] f by simp
  next
    case False
    let ?s5 = "alert (clearTimeout (cancelAnimationFrame (s\<lparr>hasSignsOfLife := False, isRunning := False\<rparr>) (frame s))
            (timeOut s)) perishedMsg"
    have dims: "rows ?s5 = rows s" "cols ?s5 = cols s"
      by (simp_all add: alert_fields clearTimeout_fields cancelAnimationFrame_fields)
    have ok: "0 \<le> rows ?s5" "0 < rows ?s5 \<longrightarrow> 0 \<le> cols ?s5"
      using wellFormed_rows[OF wf] by (simp_all add: dims)
    have dead: "getCellState s x y = Inr (Num 0)"
      if r: "0 \<le> x" "x < cols s" "0 \<le> y" "y < rows s" for x y
    proof -
      have "nextCell s x y \<noteq> Num 1" using False r by (auto simp: anyLife_def)
      with nextCell_binary[of s x y] show ?thesis by (simp add: getCellState_nextCell[OF wf r])
    qed
    from reset_result[OF ok] obtain s' where
      rs: "reset ?s5 = Inr s'" and d: "cols s' = cols s" "rows s' = rows s"
      and f: "field s' = replicate (nat (rows s)) (zeroRow (cols s))"
      by (auto simp: dims)
    have "readCell s' y x = getCellState s x y"
      if r: "0 \<le> x" "x < cols s" "0 \<le> y" "y < rows s" for x y
      using readCell_zero[OF f r(3,4,1,2)] dead[OF r] by simp
    then show ?thesis
      using updateField_extinct[OF wf \<open>changedCells s = []\<close> False] rs d by simp
  qed
qed

text \<open>
  Claim C1, witness: the horizontal blinker. The cells above and beside its centre are
  computed from the old row: (2, 1) is born, (1, 2) dies, the centre survives.
\<close>

theorem updateField_synchronous_witness:
  "wellFormed blinker5 \<and>
   (\<exists>s'. updateField blinker5 = Inr s' \<and>
      readCell s' 1 2 = getCellState blinker5 2 1 \<and> readCell s' 1 2 = Inr (Num 1) \<and>
      readCell s' 2 1 = getCellState blinker5 1 2 \<and> readCell s' 2 1 = Inr (Num 0) \<and>
      readCell s' 2 2 = getCellState blinker5 2 2 \<and> readCell s' 2 2 = Inr (Num 1))"
proof -
  have wf: "wellFormed blinker5" by code_simp
  have d: "cols blinker5 = 5" "rows blinker5 = 5" by (simp_all add: blinker5_def gameWith_def)
  have g: "getCellState blinker5 2 1 = Inr (Num 1)" "getCellState blinker5 1 2 = Inr (Num 0)"
    "getCellState blinker5 2 2 = Inr (Num 1)"
    by code_simp+
  from updateField_synchronous[OF wf] obtain s' where
    u: "updateField blinker5 = Inr s'"
    and r: "\<forall>x y. 0 \<le> x \<and> x < cols blinker5 \<and> 0 \<le> y \<and> y < rows blinker5 \<longrightarrow>
                    readCell s' y x = getCellState blinker5 x y"
    by blast
  have "readCell s' 1 2 = getCellState blinker5 2 1" "readCell s' 2 1 = getCellState blinker5 1 2"
    "readCell s' 2 2 = getCellState blinker5 2 2"
    using r d by simp_all
  with wf u g show ?thesis by simp
qed

text \<open>
  Claim C7. On every well-formed state, every entry the scan of updateField records is for
  a cell of the grid whose computed next state differs from its state before the scan, and
  updateField leaves every cell of the grid that is not recorded as it was. When there is
  an entry, the apply phase makes one write, hence one draw, per entry and changes no
  other stored value.
\<close>

theorem updateField_writes_only_changes:
  assumes wf: "wellFormed s"
  shows "\<exists>cellsToChange life s'.
      scanField s = Inr (cellsToChange, life) \<and> updateField s = Inr s' \<and>
      (\<forall>c \<in> set cellsToChange. case c of (x, y, state) \<Rightarrow>
          0 \<le> x \<and> x < cols s \<and> 0 \<le> y \<and> y < rows s \<and>
          getCellState s x y = Inr state \<and> readCell s y x \<noteq> Inr state) \<and>
      (\<forall>x y. 0 \<le> x \<and> x < cols s \<and> 0 \<le> y \<and> y < rows s \<and> (x, y) \<notin> cellOf ` set cellsToChange \<longrightarrow>
          readCell s' y x = readCell s y x) \<and>
      (cellsToChange \<noteq> [] \<longrightarrow>
          canvasOps s' = canvasOps s @ map drawOf cellsToChange \<and>
          (\<forall>x y. (x, y) \<notin> cellOf ` set cellsToChange \<longrightarrow> readCell s' y x = readCell s y x))"
proof -
  have rec: "\<forall>c \<in> set (changedCells s). case c of (x, y, state) \<Rightarrow>
          0 \<le> x \<and> x < cols s \<and> 0 \<le> y \<and> y < rows s \<and>
          getCellState s x y = Inr state \<and> readCell s y x \<noteq> Inr state"
  proof
    fix c assume c: "c \<in> set (changedCells s)"
    obtain x y v where cv: "c = (x, y, v)" by (cases c)
    from c have m: "0 \<le> x" "x < cols s" "0 \<le> y" "y < rows s" "v = nextCell s x y" "v \<noteq> Num (liveAt s x y)"
      by (auto simp: cv changedCells_mem)
    show "case c of (x, y, state) \<Rightarrow>
          0 \<le> x \<and> x < cols s \<and> 0 \<le> y \<and> y < rows s \<and>
          getCellState s x y = Inr state \<and> readCell s y x \<noteq> Inr state"
      using m getCellState_nextCell[OF wf m(1-4)] readCell_liveAt[OF wf m(3,4,1,2)]
      by (simp add: cv)
  qed
  have "\<exists>s'. updateField s = Inr s' \<and>
      (\<forall>x y. 0 \<le> x \<and> x < cols s \<and> 0 \<le> y \<and> y < rows s \<and> (x, y) \<notin> cellOf ` set (changedCells s) \<longrightarrow>
          readCell s' y x = readCell s y x) \<and>
      (changedCells s \<noteq> [] \<longrightarrow>
          canvasOps s' = canvasOps s @ map drawOf (changedCells s) \<and>
          (\<forall>x y. (x, y) \<notin> cellOf ` set (changedCells s) \<longrightarrow> readCell s' y x = readCell s y x))"
  proof (cases "changedCells s = []")
    case False
    from updateField_changing[OF wf False] obtain f where
      u: "updateField s = Inr (s\<lparr>hasSignsOfLife := anyLife s, field := f,
                  canvasOps := canvasOps s @ map drawOf (changedCells s)\<rparr>)"
      and rd: "\<forall>x y. readCell (s\<lparr>field := f\<rparr>) y x =
            (if (x, y) \<in> cellOf ` set (changedCells s) then Inr (nextCell s x y) else readCell s y x)"
      by blast
    let ?s' = "s\<lparr>hasSignsOfLife := anyLife s, field := f,
                  canvasOps := canvasOps s @ map drawOf (changedCells s)\<rparr>"
    have "readCell ?s' y x = readCell s y x" if "(x, y) \<notin> cellOf ` set (changedCells s)" for x y
    proof -
      have "readCell ?s' y x = readCell (s\<lparr>field := f\<rparr>) y x"
        by (rule readCell_field_only) simp
      with rd that show ?thesis by simp
    qed
    with u show ?thesis by simp
  next
    case True
    have same: "nextCell s x y = Num (liveAt s x y)"
      if r: "0 \<le> x" "x < cols s" "0 \<le> y" "y < rows s" for x y
      using unchanged_cell[OF wf r] True by simp
    show ?thesis
    proof (cases "anyLife s")
      case True
      let ?s' = "alert (clearTimeout (cancelAnimationFrame (s\<lparr>hasSignsOfLife := True, isRunning := False\<rparr>) (frame s))
            (timeOut s)) harmonyMsg"
      have f: "field ?s' = field s"
        by (simp_all add: alert_fields clearTimeout_fields cancelAnimationFrame_fields)
      show ?thesis
        using updateField_harmony[OF wf \<open>changedCells s = []\<close> True] readCell_field_only[OF f]
          \<open>changedCells s = []\<close> by simp
    next
      case False
      let ?s5 = "alert (clearTimeout (cancelAnimationFrame (s\<lparr>hasSignsOfLife := False, isRunning := False\<rparr>) (frame s))
            (timeOut s)) perishedMsg"
      have dims: "rows ?s5 = rows s" "cols ?s5 = cols s"
        by (simp_all add: alert_fields clearTimeout_fields cancelAnimationFrame_fields)
      have ok: "0 \<le> rows ?s5" "0 < rows ?s5 \<longrightarrow> 0 \<le> cols ?s5"
        using wellFormed_rows[OF wf] by (simp_all add: dims)
      from reset_result[OF ok] obtain s' where
        rs: "reset ?s5 = Inr s'"
        and f: "field s' = replicate (nat (rows s)) (zeroRow (cols s))"
        by (auto simp: dims)
      have "readCell s' y x = readCell s y x"
        if r: "0 \<le> x" "x < cols s" "0 \<le> y" "y < rows s" for x y
      proof -
        have "nextCell s x y \<noteq> Num 1" using False r by (auto simp: anyLife_def)
        with nextCell_binary[of s x y] same[OF r] have "liveAt s x y = 0" by simp
        then show ?thesis
          using readCell_zero[OF f r(3,4,1,2)] readCell_liveAt[OF wf r(3,4,1,2)] by simp
      qed
      then show ?thesis
        using updateField_extinct[OF wf \<open>changedCells s = []\<close> False] rs \<open>changedCells s = []\<close> by simp
    qed
  qed
  with rec scanField_eq[OF wf] show ?thesis by blast
qed

text \<open>
  Claim C7, witness: the blinker has four changing cells; the centre and the corner keep
  their values, and four cells are drawn.
\<close>

theorem updateField_writes_only_changes_witness:
  "wellFormed blinker5 \<and>
   scanField blinker5 = Inr ([(1, 2, Num 0), (2, 1, Num 1), (2, 3, Num 1), (3, 2, Num 0)], True) \<and>
   getCellState blinker5 1 2 = Inr (Num 0) \<and> readCell blinker5 2 1 \<noteq> Inr (Num 0) \<and>
   (\<exists>s'. updateField blinker5 = Inr s' \<and>
      readCell s' 2 2 = readCell blinker5 2 2 \<and> readCell s' 0 0 = readCell blinker5 0 0 \<and>
      canvasOps s' = canvasOps blinker5 @
        [DrawCell 15 30 (Some ''#fff''), DrawCell 30 15 (Some ''#acffaa''),
         DrawCell 30 45 (Some ''#acffaa''), DrawCell 45 30 (Some ''#fff'')])"
proof -
  have wf: "wellFormed blinker5" by code_simp
  have sc: "scanField blinker5 = Inr ([(1, 2, Num 0), (2, 1, Num 1), (2, 3, Num 1), (3, 2, Num 0)], True)"
    by code_simp
  have d: "cols blinker5 = 5" "rows blinker5 = 5" by (simp_all add: blinker5_def gameWith_def)
  have dr: "map drawOf [(1, 2, Num 0), (2, 1, Num 1), (2, 3, Num 1), (3, 2, Num 0)] =
      [DrawCell 15 30 (Some ''#fff''), DrawCell 30 15 (Some ''#acffaa''),
       DrawCell 30 45 (Some ''#acffaa''), DrawCell 45 30 (Some ''#fff'')]"
    by (simp add: drawOf_def CELL_SIZE_def cellColour_def CELL_STATES_def)
  from updateField_writes_only_changes[OF wf] sc obtain s' where
    u: "updateField blinker5 = Inr s'"
    and rec: "\<forall>c \<in> set [(1, 2, Num 0), (2, 1, Num 1), (2, 3, Num 1), (3::int, 2::int, Num 0)].
          case c of (x, y, state) \<Rightarrow>
          0 \<le> x \<and> x < cols blinker5 \<and> 0 \<le> y \<and> y < rows blinker5 \<and>
          getCellState blinker5 x y = Inr state \<and> readCell blinker5 y x \<noteq> Inr state"
    and fr: "\<forall>x y. 0 \<le> x \<and> x < cols blinker5 \<and> 0 \<le> y \<and> y < rows blinker5 \<and>
          (x, y) \<notin> cellOf ` set [(1, 2, Num 0), (2, 1, Num 1), (2, 3, Num 1), (3, 2, Num 0)] \<longrightarrow>
          readCell s' y x = readCell blinker5 y x"
    and ops: "canvasOps s' = canvasOps blinker5 @
          map drawOf [(1, 2, Num 0), (2, 1, Num 1), (2, 3, Num 1), (3, 2, Num 0)]"
    by auto
  have "readCell s' 2 2 = readCell blinker5 2 2" "readCell s' 0 0 = readCell blinker5 0 0"
    using fr d by (simp_all add: cellOf_def)
  moreover have "getCellState blinker5 1 2 = Inr (Num 0)" "readCell blinker5 2 1 \<noteq> Inr (Num 0)"
    using rec by simp_all
  ultimately show ?thesis using wf sc u ops dr by simp
qed


text \<open>
  Claim C3. Whenever the scan of updateField finds no change, updateField clears the
  running flag and cancels the stored timeout and animation-frame handles (neither is
  pending afterwards, and nothing new is pending), so that render, when called again, does
  nothing: after the timeout that render still sets behind updateField, no sequence of
  timer and frame callbacks computes a generation or alerts again. It reports the outcome
  with exactly one alert: the harmony message if hasSignsOfLife is true, the perished
  message if not, where hasSignsOfLife is true exactly when some cell of the grid is alive
  in the computed next generation.
\<close>

theorem updateField_halts_on_no_change:
  assumes wf: "wellFormed s" and sc: "scanField s = Inr ([], life)"
  shows "\<exists>s'. updateField s = Inr s' \<and> \<not> isRunning s' \<and>
      (\<forall>h. timeOut s = Some h \<longrightarrow> h \<notin> set (timers s')) \<and>
      (\<forall>h. frame s = Some h \<longrightarrow> h \<notin> set (frames s')) \<and>
      set (timers s') \<subseteq> set (timers s) \<and> set (frames s') \<subseteq> set (frames s) \<and>
      alerts s' = alerts s @ [if life then harmonyMsg else perishedMsg] \<and>
      (life \<longleftrightarrow> (\<exists>x y. 0 \<le> x \<and> x < cols s \<and> 0 \<le> y \<and> y < rows s \<and>
                           getCellState s x y = Inr (Num 1))) \<and>
      render s' = Inr s' \<and>
      (\<forall>evs. list_all hostCallback evs \<longrightarrow>
         (\<exists>s''. run (Inr (setTimeout s')) evs = Inr s'' \<and> \<not> isRunning s'' \<and>
                field s'' = field s' \<and> alerts s'' = alerts s'))"
proof -
  from updateField_stops[OF wf sc] obtain s' where
    core: "updateField s = Inr s' \<and> \<not> isRunning s' \<and>
      (\<forall>h. timeOut s = Some h \<longrightarrow> h \<notin> set (timers s')) \<and>
      (\<forall>h. frame s = Some h \<longrightarrow> h \<notin> set (frames s')) \<and>
      set (timers s') \<subseteq> set (timers s) \<and> set (frames s') \<subseteq> set (frames s) \<and>
      alerts s' = alerts s @ [if life then harmonyMsg else perishedMsg] \<and>
      (life \<longleftrightarrow> (\<exists>x y. 0 \<le> x \<and> x < cols s \<and> 0 \<le> y \<and> y < rows s \<and>
                           getCellState s x y = Inr (Num 1))) \<and>
      render s' = Inr s'"
    by blast
  have st: "\<not> isRunning (setTimeout s')" "field (setTimeout s') = field s'"
    "alerts (setTimeout s') = alerts s'"
    using core by (simp_all add: setTimeout_def)
  have "\<exists>s''. run (Inr (setTimeout s')) evs = Inr s'' \<and> \<not> isRunning s'' \<and>
                field s'' = field s' \<and> alerts s'' = alerts s'"
    if "list_all hostCallback evs" for evs
    using stopped_stays[OF st(1) that] st by auto
  with core show ?thesis by blast
qed

text \<open>
  Claim C3, witness: a running block with a pending timeout reaches harmony and the
  timeout is cancelled; the empty grid has perished.
\<close>

theorem updateField_halts_on_no_change_witness:
  "wellFormed (block4\<lparr>isRunning := True, timeOut := Some 0, timers := [0], nextTimer := 1\<rparr>) \<and>
   scanField (block4\<lparr>isRunning := True, timeOut := Some 0, timers := [0], nextTimer := 1\<rparr>) = Inr ([], True) \<and>
   (\<exists>s'. updateField (block4\<lparr>isRunning := True, timeOut := Some 0, timers := [0], nextTimer := 1\<rparr>) = Inr s' \<and>
         \<not> isRunning s' \<and> timers s' = [] \<and> alerts s' = [harmonyMsg] \<and> render s' = Inr s') \<and>
   getCellState block4 1 1 = Inr (Num 1) \<and>
   wellFormed emptyGrid3 \<and> scanField emptyGrid3 = Inr ([], False) \<and>
   (\<exists>s'. updateField emptyGrid3 = Inr s' \<and> \<not> isRunning s' \<and> alerts s' = [perishedMsg] \<and>
         render s' = Inr s')"
proof -
  let ?b = "block4\<lparr>isRunning := True, timeOut := Some 0, timers := [0], nextTimer := 1\<rparr>"
  have wf: "wellFormed ?b" "wellFormed emptyGrid3" by code_simp+
  have sc: "scanField ?b = Inr ([], True)" "scanField emptyGrid3 = Inr ([], False)" by code_simp+
  have g: "getCellState block4 1 1 = Inr (Num 1)" by code_simp
  have v: "timeOut ?b = Some 0" "timers ?b = [0]" "alerts ?b = []" "alerts emptyGrid3 = []"
    by (simp_all add: block4_def emptyGrid3_def gameWith_def)
  from updateField_halts_on_no_change[OF wf(1) sc(1)] obtain s1 where
    u1: "updateField ?b = Inr s1" "\<not> isRunning s1" "\<forall>h. timeOut ?b = Some h \<longrightarrow> h \<notin> set (timers s1)"
      "set (timers s1) \<subseteq> set (timers ?b)" "alerts s1 = alerts ?b @ [harmonyMsg]" "render s1 = Inr s1"
    by auto
  have t1: "timers s1 = []"
  proof (cases "timers s1")
    case (Cons a as)
    then have "a \<in> set (timers s1)" by simp
    with u1(3,4) v show ?thesis by auto
  qed simp
  from updateField_halts_on_no_change[OF wf(2) sc(2)] obtain s2 where
    u2: "updateField emptyGrid3 = Inr s2" "\<not> isRunning s2" "alerts s2 = alerts emptyGrid3 @ [perishedMsg]"
      "render s2 = Inr s2"
    by auto
  show ?thesis
    using wf sc g u1 t1 u2 v by auto
qed

text \<open>
  Claim C4 as stated, refuted: a write of the value a cell already holds does notify. The
  cell (0, 0) of the empty grid holds 0, and writing 0 to it draws it; moving the mouse
  twice over one cell with the button held draws that cell twice.
\<close>

theorem same_value_write_notifies:
  "readCell emptyGrid3 0 0 = Inr (Num 0) \<and>
   map_sum id canvasOps (assignCell emptyGrid3 0 0 (Num 0)) =
     Inr (canvasOps emptyGrid3 @ [DrawCell 0 0 (Some ''#fff'')]) \<and>
   map_sum id canvasOps
     (run (Inr emptyGrid3)
        [MouseMove \<lparr>offsetX = 20, offsetY = 0, buttons = 1\<rparr>,
         MouseMove \<lparr>offsetX = 21, offsetY = 0, buttons = 1\<rparr>]) =
     Inr [DrawGrid, DrawCell 15 0 (Some ''#acffaa''), DrawCell 15 0 (Some ''#acffaa'')]"
  by code_simp

text \<open>
  Claim C4, amended. Every write to a cell of an existing row stores the value and makes
  exactly one call of drawCell, with the pixel coordinates \<open>x * CELL_SIZE\<close>,
  \<open>y * CELL_SIZE\<close> and the colour of the value written, whether or not the value differs
  from the one stored before.
\<close>

theorem cell_write_notifies_once:
  "0 \<le> y \<and> y < int (length (field s)) \<longrightarrow>
   (\<exists>s'. assignCell s y x v = Inr s' \<and> readCell s' y x = Inr v \<and>
      canvasOps s' = canvasOps s @ [DrawCell (x * CELL_SIZE) (y * CELL_SIZE) (cellColour v)])"
  using readCell_assignCell[of y s x v] readCell_proxySet[of y s x v y x] by simp

text \<open>
  Claim C4, witness: the dead cell (2, 1) of the empty grid, written with 0 and with 1.
\<close>

theorem cell_write_notifies_once_witness:
  "readCell emptyGrid3 1 2 = Inr (Num 0) \<and>
   (\<exists>s'. assignCell emptyGrid3 1 2 (Num 0) = Inr s' \<and> readCell s' 1 2 = Inr (Num 0) \<and>
      canvasOps s' = [DrawGrid, DrawCell 30 15 (Some ''#fff'')]) \<and>
   (\<exists>s'. assignCell emptyGrid3 1 2 (Num 1) = Inr s' \<and> readCell s' 1 2 = Inr (Num 1) \<and>
      canvasOps s' = [DrawGrid, DrawCell 30 15 (Some ''#acffaa'')])"
proof -
  have r: "readCell emptyGrid3 1 2 = Inr (Num 0)" by code_simp
  have l: "(0::int) \<le> 1 \<and> 1 < int (length (field emptyGrid3))" "canvasOps emptyGrid3 = [DrawGrid]"
    by (simp_all add: emptyGrid3_def gameWith_def)
  have c: "cellColour (Num 0) = Some ''#fff''" "cellColour (Num 1) = Some ''#acffaa''"
    by (simp_all add: cellColour_def CELL_STATES_def)
  show ?thesis
    using cell_write_notifies_once[of 1 emptyGrid3 2 "Num 0"]
      cell_write_notifies_once[of 1 emptyGrid3 2 "Num 1"] r l c
    by (simp add: CELL_SIZE_def)
qed

text \<open>
  Claim C8 as stated, refuted: with the primary and the secondary button both held
  (\<^verbatim>\<open>buttons = 3\<close>) and the pointer inside the grid's vertical extent, the paint event is
  ignored although the primary button is held.
\<close>

theorem paint_ignored_with_primary_held:
  "primaryHeld \<lparr>offsetX = 0, offsetY = 0, buttons = 3\<rparr> \<and>
   0 \<le> offsetY \<lparr>offsetX = 0, offsetY = 0, buttons = 3\<rparr> \<and>
   offsetY \<lparr>offsetX = 0, offsetY = 0, buttons = 3\<rparr> < rows emptyGrid3 * CELL_SIZE \<and>
   setFirstGen emptyGrid3 \<lparr>offsetX = 0, offsetY = 0, buttons = 3\<rparr> = Inr emptyGrid3"
  by (simp add: primaryHeld_def emptyGrid3_def gameWith_def CELL_SIZE_def setFirstGen_def)

text \<open>
  Claim C8, amended. On a well-formed state a paint event is ignored if and only if
  \<^verbatim>\<open>buttons\<close> is not exactly 1 (the primary button alone) or the vertical offset is outside
  \<open>[0, rows * CELL_SIZE)\<close>. Otherwise the cell at column \<open>offsetX div CELL_SIZE\<close> and row
  \<open>offsetY div CELL_SIZE\<close> is set to the paint value and nothing else stored changes; the
  row is inside the grid, and the column is not checked: for an event with
  \<open>offsetX \<ge> cols * CELL_SIZE\<close> it is at least \<open>cols\<close>, and for a negative offset it is
  negative.
\<close>

theorem paint_guard_and_target:
  assumes wf: "wellFormed s"
  shows "(setFirstGen s e = Inr s \<longleftrightarrow>
            buttons e \<noteq> 1 \<or> offsetY e < 0 \<or> offsetY e \<ge> rows s * CELL_SIZE) \<and>
         getCellCoords e = (offsetX e div CELL_SIZE, offsetY e div CELL_SIZE) \<and>
         (buttons e = 1 \<and> 0 \<le> offsetY e \<and> offsetY e < rows s * CELL_SIZE \<longrightarrow>
            (\<exists>s'. setFirstGen s e = Inr s' \<and>
               readCell s' (offsetY e div CELL_SIZE) (offsetX e div CELL_SIZE) =
                 Inr (Num (if isSetting s then 1 else 0)) \<and>
               (\<forall>x y. (x, y) \<noteq> (offsetX e div CELL_SIZE, offsetY e div CELL_SIZE) \<longrightarrow>
                        readCell s' y x = readCell s y x) \<and>
               0 \<le> offsetY e div CELL_SIZE \<and> offsetY e div CELL_SIZE < rows s \<and>
               (offsetX e \<ge> cols s * CELL_SIZE \<longrightarrow> offsetX e div CELL_SIZE \<ge> cols s) \<and>
               (offsetX e < 0 \<longrightarrow> offsetX e div CELL_SIZE < 0)))"
proof (cases "buttons e \<noteq> 1 \<or> offsetY e < 0 \<or> offsetY e \<ge> rows s * CELL_SIZE")
  case True
  then show ?thesis
    using setFirstGen_ignores[OF True] by (auto simp: getCellCoords_def)
next
  case False
  then have b: "buttons e = 1" and oy: "0 \<le> offsetY e" "offsetY e < rows s * CELL_SIZE" by auto
  let ?x = "offsetX e div CELL_SIZE" and ?y = "offsetY e div CELL_SIZE"
  let ?v = "Num (if isSetting s then 1 else 0)"
  have y: "0 \<le> ?y" "?y < int (length (field s))" "?y < rows s"
    using cell_row_range[OF oy] wellFormed_rows[OF wf] by simp_all
  have p: "setFirstGen s e = Inr (proxySet s ?y ?x ?v)"
    by (rule setFirstGen_paints[OF wf b oy])
  have ne: "proxySet s ?y ?x ?v \<noteq> s"
  proof
    assume "proxySet s ?y ?x ?v = s"
    then have "canvasOps (proxySet s ?y ?x ?v) = canvasOps s" by simp
    then show False by (simp add: proxySet_def drawCell_def Let_def)
  qed
  have x1: "offsetX e \<ge> cols s * CELL_SIZE \<longrightarrow> ?x \<ge> cols s"
    unfolding CELL_SIZE_def by presburger
  have x2: "offsetX e < 0 \<longrightarrow> ?x < 0"
    unfolding CELL_SIZE_def by presburger
  show ?thesis
    using False p ne y x1 x2 readCell_proxySet[OF y(1,2)]
    by (auto simp: getCellCoords_def)
qed

text \<open>
  Claim C8, witness: on the empty 3 by 3 grid, a pointer below the grid and a released
  button are ignored; a pointer at \<open>offsetX = 45\<close> in the last row writes 1 at column 3,
  outside the grid.
\<close>

theorem paint_guard_and_target_witness:
  "wellFormed emptyGrid3 \<and>
   setFirstGen emptyGrid3 \<lparr>offsetX = 0, offsetY = 45, buttons = 1\<rparr> = Inr emptyGrid3 \<and>
   setFirstGen emptyGrid3 \<lparr>offsetX = 0, offsetY = 0, buttons = 0\<rparr> = Inr emptyGrid3 \<and>
   (\<exists>s'. setFirstGen emptyGrid3 \<lparr>offsetX = 45, offsetY = 44, buttons = 1\<rparr> = Inr s' \<and>
         s' \<noteq> emptyGrid3 \<and> readCell s' 2 3 = Inr (Num 1) \<and> cols emptyGrid3 = 3 \<and>
         readCell s' 2 2 = readCell emptyGrid3 2 2)"
proof -
  have wf: "wellFormed emptyGrid3" by code_simp
  have d: "cols emptyGrid3 = 3" "rows emptyGrid3 = 3" "isSetting emptyGrid3"
    by (simp_all add: emptyGrid3_def gameWith_def)
  note a = paint_guard_and_target[OF wf, of "\<lparr>offsetX = 0, offsetY = 45, buttons = 1\<rparr>"]
  note b = paint_guard_and_target[OF wf, of "\<lparr>offsetX = 0, offsetY = 0, buttons = 0\<rparr>"]
  note c = paint_guard_and_target[OF wf, of "\<lparr>offsetX = 45, offsetY = 44, buttons = 1\<rparr>"]
  have 1: "setFirstGen emptyGrid3 \<lparr>offsetX = 0, offsetY = 45, buttons = 1\<rparr> = Inr emptyGrid3"
    using a[THEN conjunct1] d by (simp add: CELL_SIZE_def)
  have 2: "setFirstGen emptyGrid3 \<lparr>offsetX = 0, offsetY = 0, buttons = 0\<rparr> = Inr emptyGrid3"
    using b[THEN conjunct1] by simp
  have 3: "setFirstGen emptyGrid3 \<lparr>offsetX = 45, offsetY = 44, buttons = 1\<rparr> \<noteq> Inr emptyGrid3"
    using c[THEN conjunct1] d by (simp add: CELL_SIZE_def)
  from c[THEN conjunct2, THEN conjunct2] d obtain s' where
    s': "setFirstGen emptyGrid3 \<lparr>offsetX = 45, offsetY = 44, buttons = 1\<rparr> = Inr s'"
      "readCell s' (44 div CELL_SIZE) (45 div CELL_SIZE) = Inr (Num 1)"
      "\<forall>x y. (x, y) \<noteq> (45 div CELL_SIZE, 44 div CELL_SIZE) \<longrightarrow> readCell s' y x = readCell emptyGrid3 y x"
    by (auto simp: CELL_SIZE_def)
  have "readCell s' 2 3 = Inr (Num 1)" "readCell s' 2 2 = readCell emptyGrid3 2 2"
    using s'(2,3) by (simp_all add: CELL_SIZE_def)
  with wf 1 2 3 s'(1) d show ?thesis by auto
qed

text \<open>
  Claim C9. The constructor yields a well-formed state whose grid cells are all 0. On a
  well-formed state every cell of the grid reads as 0 or 1 and getCellState returns 0 or 1
  for it, and every operation (setFirstGen, setMode, updateField, render, start, reset,
  and every event of the host) returns a well-formed state again: each cell of the grid
  holds exactly 0 or 1 throughout.
\<close>

theorem cells_stay_binary:
  "(GameOfLife c r = Inr s0 \<longrightarrow>
      wellFormed s0 \<and> (\<forall>y \<in> set [0..r - 1]. \<forall>x \<in> set [0..c - 1]. readCell s0 y x = Inr (Num 0))) \<and>
   (wellFormed s \<longrightarrow>
      (\<forall>y \<in> set [0..rows s - 1]. \<forall>x \<in> set [0..cols s - 1].
         (readCell s y x = Inr (Num 0) \<or> readCell s y x = Inr (Num 1)) \<and>
         (getCellState s x y = Inr (Num 0) \<or> getCellState s x y = Inr (Num 1))) \<and>
      (\<exists>s'. setFirstGen s e = Inr s' \<and> wellFormed s') \<and>
      (\<exists>s'. setMode s e = Inr s' \<and> wellFormed s') \<and>
      (\<exists>s'. updateField s = Inr s' \<and> wellFormed s') \<and>
      (\<exists>s'. render s = Inr s' \<and> wellFormed s') \<and>
      (\<exists>s'. start s = Inr s' \<and> wellFormed s') \<and>
      (\<exists>s'. reset s = Inr s' \<and> wellFormed s') \<and>
      (\<exists>s'. step s ev = Inr s' \<and> wellFormed s'))"
proof (intro conjI impI)
  assume g: "GameOfLife c r = Inr s0"
  then show "wellFormed s0" by (rule GameOfLife_wellFormed)
  from g show "\<forall>y \<in> set [0..r - 1]. \<forall>x \<in> set [0..c - 1]. readCell s0 y x = Inr (Num 0)"
    by (auto simp: GameOfLife_def init_def Let_def generateField_def drawGrid_def
                   readCell_def fieldRow_def zeroRow_def split: if_splits)
next
  assume wf: "wellFormed s"
  show "\<forall>y \<in> set [0..rows s - 1]. \<forall>x \<in> set [0..cols s - 1].
         (readCell s y x = Inr (Num 0) \<or> readCell s y x = Inr (Num 1)) \<and>
         (getCellState s x y = Inr (Num 0) \<or> getCellState s x y = Inr (Num 1))"
  proof (intro ballI)
    fix y x assume "y \<in> set [0..rows s - 1]" "x \<in> set [0..cols s - 1]"
    then have r: "0 \<le> x" "x < cols s" "0 \<le> y" "y < rows s" by simp_all
    show "(readCell s y x = Inr (Num 0) \<or> readCell s y x = Inr (Num 1)) \<and>
         (getCellState s x y = Inr (Num 0) \<or> getCellState s x y = Inr (Num 1))"
      using wellFormed_cell[OF wf r(3,4,1,2)] getCellState_nextCell[OF wf r] nextCell_binary[of s x y]
      by simp
  qed
  show "\<exists>s'. setFirstGen s e = Inr s' \<and> wellFormed s'" by (rule setFirstGen_wellFormed[OF wf])
  show "\<exists>s'. setMode s e = Inr s' \<and> wellFormed s'" by (rule setMode_wellFormed[OF wf])
  show "\<exists>s'. updateField s = Inr s' \<and> wellFormed s'" using updateField_wellFormed[OF wf] by blast
  show "\<exists>s'. render s = Inr s' \<and> wellFormed s'" by (rule render_wellFormed[OF wf])
  show "\<exists>s'. start s = Inr s' \<and> wellFormed s'" by (rule start_wellFormed[OF wf])
  show "\<exists>s'. reset s = Inr s' \<and> wellFormed s'"
    using reset_wellFormed[of s] wellFormed_rows[OF wf] by blast
  show "\<exists>s'. step s ev = Inr s' \<and> wellFormed s'" by (rule step_wellFormed[OF wf])
qed

text \<open>
  Claim C9, witness: the constructed 3 by 3 grid, and the blinker under a mousedown, a
  generation and a click on start.
\<close>

theorem cells_stay_binary_witness:
  "GameOfLife 3 3 = Inr emptyGrid3 \<and> wellFormed emptyGrid3 \<and> readCell emptyGrid3 2 2 = Inr (Num 0) \<and>
   wellFormed blinker5 \<and> readCell blinker5 2 1 = Inr (Num 1) \<and> getCellState blinker5 1 2 = Inr (Num 0) \<and>
   (\<exists>s'. setMode blinker5 \<lparr>offsetX = 80, offsetY = 0, buttons = 1\<rparr> = Inr s' \<and> wellFormed s') \<and>
   (\<exists>s'. updateField blinker5 = Inr s' \<and> wellFormed s') \<and>
   (\<exists>s'. step blinker5 ClickStart = Inr s' \<and> wellFormed s')"
proof -
  have g: "GameOfLife 3 3 = Inr emptyGrid3"
    by (simp add: GameOfLife_def init_def generateField_def drawGrid_def emptyGrid3_def gameWith_def
                  numeral_3_eq_3)
  have wf: "wellFormed blinker5" by code_simp
  have v: "readCell blinker5 2 1 = Inr (Num 1)" "getCellState blinker5 1 2 = Inr (Num 0)" by code_simp+
  note new = cells_stay_binary[of 3 3 emptyGrid3 blinker5, THEN conjunct1]
  note old = cells_stay_binary[of 3 3 emptyGrid3 blinker5 "\<lparr>offsetX = 80, offsetY = 0, buttons = 1\<rparr>" ClickStart,
      THEN conjunct2]
  have "wellFormed emptyGrid3" "readCell emptyGrid3 2 2 = Inr (Num 0)"
    using new g by simp_all
  then show ?thesis using old wf g v by simp
qed

text \<open>
  Claim C10 as stated, refuted: on a 3 by 3 grid a mousedown at \<open>offsetX = 45\<close> maps to
  column 3, outside the grid; the first one paints 1 there (the write is not bounds
  checked), so the second one reads 1 and the paint value becomes false.
\<close>

theorem offgrid_mousedown_can_paint_dead:
  "map_sum id cols (GameOfLife 3 3) = Inr 3 \<and>
   getCellCoords \<lparr>offsetX = 45, offsetY = 0, buttons = 1\<rparr> = (3, 0) \<and>
   map_sum id isSetting
     (run (GameOfLife 3 3)
        [MouseDown \<lparr>offsetX = 45, offsetY = 0, buttons = 1\<rparr>,
         MouseDown \<lparr>offsetX = 45, offsetY = 0, buttons = 1\<rparr>]) = Inr False"
  by code_simp

text \<open>
  Claim C10, amended. On a well-formed state setMode never fails, and it sets the paint
  value to the negation of the truthiness of the guarded read at the targeted position.
  When the row is out of range the read yields no value and the paint value becomes true;
  so it does whenever the read yields no value. On a freshly constructed grid, where
  nothing is stored off the grid, every off-grid mousedown makes the paint value true.
\<close>

theorem setMode_paint_value:
  "(wellFormed s \<longrightarrow>
      (\<exists>s'. setMode s e = Inr s' \<and>
         isSetting s' = (\<not> truthy (readCellOpt s (offsetY e div CELL_SIZE) (offsetX e div CELL_SIZE))) \<and>
         (offsetY e div CELL_SIZE < 0 \<or> offsetY e div CELL_SIZE \<ge> rows s \<longrightarrow>
            readCellOpt s (offsetY e div CELL_SIZE) (offsetX e div CELL_SIZE) = Undefined \<and> isSetting s') \<and>
         (readCellOpt s (offsetY e div CELL_SIZE) (offsetX e div CELL_SIZE) = Undefined \<longrightarrow> isSetting s'))) \<and>
   (GameOfLife c r = Inr s0 \<and>
    (offsetX e div CELL_SIZE < 0 \<or> offsetX e div CELL_SIZE \<ge> c \<or>
     offsetY e div CELL_SIZE < 0 \<or> offsetY e div CELL_SIZE \<ge> r) \<longrightarrow>
      (\<exists>s'. setMode s0 e = Inr s' \<and> isSetting s'))"
proof (intro conjI impI)
  assume wf: "wellFormed s"
  let ?x = "offsetX e div CELL_SIZE" and ?y = "offsetY e div CELL_SIZE"
  from setMode_result[OF wf, of e] obtain s' where
    m: "setMode s e = Inr s'" "isSetting s' = (\<not> truthy (readCellOpt s ?y ?x))" by blast
  have "readCellOpt s ?y ?x = Undefined" if "?y < 0 \<or> ?y \<ge> rows s"
    using that wellFormed_rows[OF wf] by (auto simp: readCellOpt_def fieldRow_def)
  with m show "\<exists>s'. setMode s e = Inr s' \<and>
         isSetting s' = (\<not> truthy (readCellOpt s ?y ?x)) \<and>
         (?y < 0 \<or> ?y \<ge> rows s \<longrightarrow> readCellOpt s ?y ?x = Undefined \<and> isSetting s') \<and>
         (readCellOpt s ?y ?x = Undefined \<longrightarrow> isSetting s')"
    by auto
next
  let ?x = "offsetX e div CELL_SIZE" and ?y = "offsetY e div CELL_SIZE"
  assume a: "GameOfLife c r = Inr s0 \<and> (?x < 0 \<or> ?x \<ge> c \<or> ?y < 0 \<or> ?y \<ge> r)"
  then have wf: "wellFormed s0" using GameOfLife_wellFormed[of c r s0] by simp
  from a have "readCellOpt s0 ?y ?x = Undefined"
    by (auto simp: GameOfLife_def init_def Let_def generateField_def drawGrid_def
                   readCellOpt_def fieldRow_def zeroRow_def split: if_splits)
  with setMode_result[OF wf, of e] show "\<exists>s'. setMode s0 e = Inr s' \<and> isSetting s'" by auto
qed

text \<open>
  Claim C10, witness: on the blinker, a mousedown on the live centre, one below the grid
  and one above it; on the constructed 3 by 3 grid, one right of the grid.
\<close>

theorem setMode_paint_value_witness:
  "wellFormed blinker5 \<and>
   (\<exists>s'. setMode blinker5 \<lparr>offsetX = 30, offsetY = 30, buttons = 1\<rparr> = Inr s' \<and> \<not> isSetting s') \<and>
   (\<exists>s'. setMode blinker5 \<lparr>offsetX = 30, offsetY = 75, buttons = 1\<rparr> = Inr s' \<and> isSetting s') \<and>
   (\<exists>s'. setMode blinker5 \<lparr>offsetX = 30, offsetY = - 1, buttons = 1\<rparr> = Inr s' \<and> isSetting s') \<and>
   GameOfLife 3 3 = Inr emptyGrid3 \<and>
   (\<exists>s'. setMode emptyGrid3 \<lparr>offsetX = 45, offsetY = 0, buttons = 1\<rparr> = Inr s' \<and> isSetting s')"
proof -
  have wf: "wellFormed blinker5" by code_simp
  have g: "GameOfLife 3 3 = Inr emptyGrid3"
    by (simp add: GameOfLife_def init_def generateField_def drawGrid_def emptyGrid3_def gameWith_def
                  numeral_3_eq_3)
  have d: "rows blinker5 = 5" by (simp add: blinker5_def gameWith_def)
  have rd: "readCellOpt blinker5 (30 div CELL_SIZE) (30 div CELL_SIZE) = Num 1" by code_simp
  note a = setMode_paint_value[of blinker5 "\<lparr>offsetX = 30, offsetY = 30, buttons = 1\<rparr>", THEN conjunct1]
  note b = setMode_paint_value[of blinker5 "\<lparr>offsetX = 30, offsetY = 75, buttons = 1\<rparr>", THEN conjunct1]
  note c = setMode_paint_value[of blinker5 "\<lparr>offsetX = 30, offsetY = - 1, buttons = 1\<rparr>", THEN conjunct1]
  note f = setMode_paint_value[of blinker5 "\<lparr>offsetX = 45, offsetY = 0, buttons = 1\<rparr>" 3 3 emptyGrid3,
      THEN conjunct2]
  have 1: "\<exists>s'. setMode blinker5 \<lparr>offsetX = 30, offsetY = 30, buttons = 1\<rparr> = Inr s' \<and> \<not> isSetting s'"
    using a wf rd by auto
  have 2: "\<exists>s'. setMode blinker5 \<lparr>offsetX = 30, offsetY = 75, buttons = 1\<rparr> = Inr s' \<and> isSetting s'"
    using b wf d by (auto simp: CELL_SIZE_def)
  have 3: "\<exists>s'. setMode blinker5 \<lparr>offsetX = 30, offsetY = - 1, buttons = 1\<rparr> = Inr s' \<and> isSetting s'"
    using c wf d by (auto simp: CELL_SIZE_def)
  have 4: "\<exists>s'. setMode emptyGrid3 \<lparr>offsetX = 45, offsetY = 0, buttons = 1\<rparr> = Inr s' \<and> isSetting s'"
    using f g by (simp add: CELL_SIZE_def)
  from wf 1 2 3 g 4 show ?thesis by simp
qed

end
